theory Spec2Isabelle
  imports Complex_Main "HOL-Library.Multiset"
begin

section \<open>Data model of PulseSeer.py\<close>

text \<open>
  The six keys of \<^verbatim>\<open>PARAMETERS\<close> (line 58). Every per-wavelength dictionary of
  \<^verbatim>\<open>MainWindow\<close> is built by a comprehension over \<^verbatim>\<open>PARAMETERS\<close> and no key is
  ever added or removed, so a dictionary is a total function on this type.
  Python floats are read as real numbers throughout.
\<close>

datatype wavelength = nm700 | nm800 | nm850 | nm900 | nm970 | nm1050

definition PARAMETERS :: "wavelength list" where
  "PARAMETERS = [nm700, nm800, nm850, nm900, nm970, nm1050]"

datatype error = ValueError | IndexError | IOError

text \<open>
  \<^verbatim>\<open>self.adc\<close>: the ADS131M02 driver object carries \<^verbatim>\<open>channel_gains\<close>, created as
  \<^verbatim>\<open>[1, 1]\<close> and only ever updated by index, hence a pair; the ADS7142 driver has
  no such attribute. \<^verbatim>\<open>self.adc_type\<close> is set together with \<^verbatim>\<open>self.adc\<close>.
\<close>

datatype adc_dev = ADS131M02 "int \<times> int" | ADS7142

record main_window =
  adc :: "adc_dev option"
  sample_buffer :: "wavelength \<Rightarrow> real list"
  continuous_sample_buffer :: "wavelength \<Rightarrow> real list"
  continuous_wavelength_cycle :: nat
  adc_read_count :: nat
  cycle_detected_count :: nat
  total_cycles_detected :: nat
  wavelength_cycle_count :: nat
  current_wavelength :: wavelength
  cycle_timestamps :: "real list"
  consecutive_cycles :: nat
  is_locked :: bool
  no_pattern_timer :: "nat option"
  pattern_detection_active :: bool
  status_label_shown :: bool

definition LOCK_THRESHOLD :: nat where
  "LOCK_THRESHOLD = 2"

section \<open>The ADS131M02 gain register (ADS131M02\_driver.py)\<close>

definition GAIN_1 :: nat where "GAIN_1 = 0"
definition GAIN_2 :: nat where "GAIN_2 = 1"
definition GAIN_4 :: nat where "GAIN_4 = 2"
definition GAIN_8 :: nat where "GAIN_8 = 3"

definition driver_gain_values :: "int list" where
  "driver_gain_values = [1, 2, 4, 8, 16, 32, 64, 128]"

text \<open>
  \<^verbatim>\<open>ADS131M02.set_gain\<close> (lines 216--241). The register read and write go over
  SPI; \<open>spi_ok\<close> says whether the bus transaction succeeds, otherwise the call
  raises before \<^verbatim>\<open>channel_gains\<close> is touched.
\<close>

definition set_gain :: "bool \<Rightarrow> int \<times> int \<Rightarrow> nat \<Rightarrow> nat \<Rightarrow> error + int \<times> int" where
  "set_gain spi_ok gains channel gain =
     (if channel \<noteq> 0 \<and> channel \<noteq> 1 then Inl ValueError
      else if \<not> spi_ok then Inl IOError
      else if length driver_gain_values \<le> gain then Inl IndexError
      else if channel = 0 then Inr (driver_gain_values ! gain, snd gains)
      else Inr (fst gains, driver_gain_values ! gain))"

section \<open>The auto-gain controller (PulseSeer.py, lines 2363--2443)\<close>

definition gain_steps :: "nat list" where
  "gain_steps = [GAIN_1, GAIN_2, GAIN_4, GAIN_8]"

definition gain_values :: "int list" where
  "gain_values = [1, 2, 4, 8]"

text \<open>
  The search loop of lines 2380--2384: the index of the first ladder value equal to the
  current gain, and 0 when there is none.
\<close>

fun gain_idx_from :: "int \<Rightarrow> int list \<Rightarrow> nat \<Rightarrow> nat" where
  "gain_idx_from g [] i = 0"
| "gain_idx_from g (gain_val # rest) i =
     (if g = gain_val then i else gain_idx_from g rest (Suc i))"

definition current_gain_idx :: "int \<Rightarrow> nat" where
  "current_gain_idx g = gain_idx_from g gain_values 0"

definition clear_continuous :: "wavelength \<Rightarrow> real list" where
  "clear_continuous = (\<lambda>param. [])"

text \<open>
  One gain step: \<^verbatim>\<open>set_gain\<close> inside \<^verbatim>\<open>try\<close>; on success the continuous buffer is
  replaced by a fresh dictionary of empty lists, on an exception nothing changes.
\<close>

definition try_set_gain :: "bool \<Rightarrow> main_window \<Rightarrow> int \<times> int \<Rightarrow> nat \<Rightarrow> nat \<Rightarrow> main_window" where
  "try_set_gain spi_ok s gains channel gain =
     (case set_gain spi_ok gains channel gain of
        Inr gains' \<Rightarrow> s\<lparr>adc := Some (ADS131M02 gains'),
                        continuous_sample_buffer := clear_continuous\<rparr>
      | Inl e \<Rightarrow> s)"

text \<open>
  \<^verbatim>\<open>auto_adjust_gain\<close>. A \<^verbatim>\<open>voltage_batch\<close> of \<^verbatim>\<open>None\<close> and an empty one are both
  falsy and are both the empty list here.
\<close>

definition auto_adjust_gain ::
  "bool \<Rightarrow> main_window \<Rightarrow> nat \<Rightarrow> real list \<Rightarrow> real \<Rightarrow> real \<Rightarrow> main_window" where
  "auto_adjust_gain spi_ok s channel voltage_batch threshold_low threshold_high =
     (case adc s of
        Some (ADS131M02 gains) \<Rightarrow>
          if channel \<noteq> 0 then s
          else
            let current_gain = fst gains;
                idx = current_gain_idx current_gain
            in if voltage_batch \<noteq> [] then
                 let max_voltage = fold max (map abs (tl voltage_batch)) (abs (hd voltage_batch))
                 in if list_ex (\<lambda>v. abs v > threshold_high) voltage_batch then
                      (if idx > 0
                       then try_set_gain spi_ok s gains channel (gain_steps ! (idx - 1))
                       else s)
                    else if list_ex (\<lambda>v. abs v < threshold_low) voltage_batch
                            \<and> max_voltage \<le> threshold_high then
                      (if idx < length gain_steps - 1
                       then try_set_gain spi_ok s gains channel (gain_steps ! (idx + 1))
                       else s)
                    else s
               else s
      | _ \<Rightarrow> s)"

text \<open>The gain of channel 0 as line 1446 reads it (1 when the driver has no gains).\<close>

definition channel0_gain :: "main_window \<Rightarrow> int" where
  "channel0_gain s = (case adc s of Some (ADS131M02 gains) \<Rightarrow> fst gains | _ \<Rightarrow> 1)"

section \<open>numpy and built-ins used by the pipeline\<close>

text \<open>
  \<^verbatim>\<open>np.mean\<close> and \<^verbatim>\<open>np.std\<close> (population standard deviation). On an empty array
  numpy returns \<^verbatim>\<open>nan\<close> with a warning; the only place the source can reach that is
  the statistics of an empty batch, where \<^verbatim>\<open>np.min\<close> raises right after.
\<close>

definition np_mean :: "real list \<Rightarrow> real" where
  "np_mean xs = sum_list xs / real (length xs)"

definition np_std :: "real list \<Rightarrow> real" where
  "np_std xs = sqrt (np_mean (map (\<lambda>x. (abs (x - np_mean xs))\<^sup>2) xs))"

fun np_min :: "real list \<Rightarrow> error + real" where
  "np_min [] = Inl ValueError"
| "np_min (x # xs) = Inr (fold min xs x)"

fun np_max :: "real list \<Rightarrow> error + real" where
  "np_max [] = Inl ValueError"
| "np_max (x # xs) = Inr (fold max xs x)"

text \<open>Python 3 \<^verbatim>\<open>round\<close>: to the nearest integer, a tie to the even one.\<close>

definition py_round :: "real \<Rightarrow> int" where
  "py_round x =
     (let f = \<lfloor>x\<rfloor>
      in if x - of_int f < 1 / 2 then f
         else if 1 / 2 < x - of_int f then f + 1
         else if even f then f else f + 1)"

section \<open>Pulse detection (PulseSeer.py, lines 1545--1835)\<close>

record voltage_stats =
  mean_v :: real
  std_v :: real
  min_v :: real
  max_v :: real

record cycle =
  start_idx :: nat
  quality :: real
  pulses :: "real list"
  widths :: "real list"
  clusters :: "nat list list"
  cycle_voltages :: "real list"
  sorted_pulse_times :: "real list"
  sorted_pulse_widths :: "real list"
  sorted_pulse_clusters :: "nat list list"
  sorted_pulse_voltages :: "real list"

text \<open>
  The result dictionary. The keys written only after a detection are \<open>None\<close> while
  absent; the suffix \<open>_r\<close> keeps them apart from the like-named keys of a cycle.
\<close>

record detection_result =
  detected :: bool
  score :: real
  quality_r :: real
  pulse_count :: nat
  high_samples :: nat
  pulse_width_ms :: real
  actual_sps :: real
  stats :: voltage_stats
  sorted_pulse_times_r :: "real list option"
  sorted_pulse_widths_r :: "real list option"
  sorted_pulse_clusters_r :: "nat list list option"
  sorted_pulse_voltages_r :: "real list option"
  total_valid_cycles :: "nat option"
  all_valid_cycles :: "cycle list option"

definition EXPECTED_PULSE_COUNT :: nat where
  "EXPECTED_PULSE_COUNT = 6"

definition EXPECTED_CYCLE_FREQUENCY_HZ :: real where
  "EXPECTED_CYCLE_FREQUENCY_HZ = 256"

definition EXPECTED_CYCLE_DURATION_MS :: real where
  "EXPECTED_CYCLE_DURATION_MS = 1000 / EXPECTED_CYCLE_FREQUENCY_HZ"

definition VOLTAGE_THRESHOLD :: real where
  "VOLTAGE_THRESHOLD = 1 / 10"

definition batch_sps :: "real list \<Rightarrow> real" where
  "batch_sps voltages = (real (length voltages) / 20) * 1000"

definition samples_per_cycle :: "real list \<Rightarrow> int" where
  "samples_per_cycle voltages =
     py_round (EXPECTED_CYCLE_DURATION_MS * (batch_sps voltages / 1000))"

text \<open>The dictionary literal of lines 1571--1585; \<^verbatim>\<open>np.min\<close> raises on an empty batch.\<close>

definition initial_result :: "real list \<Rightarrow> error + detection_result" where
  "initial_result voltages =
     (case np_min voltages of
        Inl e \<Rightarrow> Inl e
      | Inr lo \<Rightarrow>
          (case np_max voltages of
             Inl e \<Rightarrow> Inl e
           | Inr hi \<Rightarrow>
               Inr \<lparr>detected = False, score = 0, quality_r = 0, pulse_count = 0,
                    high_samples = 0, pulse_width_ms = 0, actual_sps = batch_sps voltages,
                    stats = \<lparr>mean_v = np_mean voltages, std_v = np_std voltages,
                              min_v = lo, max_v = hi\<rparr>,
                    sorted_pulse_times_r = None, sorted_pulse_widths_r = None,
                    sorted_pulse_clusters_r = None, sorted_pulse_voltages_r = None,
                    total_valid_cycles = None, all_valid_cycles = None\<rparr>))"

text \<open>
  Step 3, lines 1628--1651: one pass over the indices with the loop variables
  \<^verbatim>\<open>(pulse_clusters, current_cluster, in_pulse)\<close>, then the trailing cluster.
\<close>

fun cluster_step ::
  "real list \<Rightarrow> nat \<Rightarrow> nat list list \<times> nat list \<times> bool \<Rightarrow> nat list list \<times> nat list \<times> bool" where
  "cluster_step buf i (pulse_clusters, current_cluster, in_pulse) =
     (if buf ! i > VOLTAGE_THRESHOLD then
        (if \<not> in_pulse then (pulse_clusters, [i], True)
         else (pulse_clusters, current_cluster @ [i], True))
      else
        (if in_pulse then
           ((if length current_cluster > 0 then pulse_clusters @ [current_cluster]
             else pulse_clusters), [], False)
         else (pulse_clusters, current_cluster, in_pulse)))"

definition cluster_loop :: "real list \<Rightarrow> nat \<Rightarrow> nat list list \<times> nat list \<times> bool" where
  "cluster_loop buf n = fold (cluster_step buf) [0..<n] ([], [], False)"

definition find_pulse_clusters :: "real list \<Rightarrow> nat list list" where
  "find_pulse_clusters buf =
     (case cluster_loop buf (length buf) of
        (pulse_clusters, current_cluster, in_pulse) \<Rightarrow>
          if in_pulse \<and> length current_cluster > 0 then pulse_clusters @ [current_cluster]
          else pulse_clusters)"

text \<open>Step 4, lines 1664--1677.\<close>

definition center_time :: "real \<Rightarrow> nat list \<Rightarrow> real" where
  "center_time sps cluster = np_mean (map real cluster) / sps * 1000"

definition cluster_width :: "real \<Rightarrow> nat list \<Rightarrow> real" where
  "cluster_width sps cluster = (real (last cluster) - real (hd cluster)) / sps * 1000"

definition cluster_voltage :: "real list \<Rightarrow> nat list \<Rightarrow> real" where
  "cluster_voltage buf cluster = np_mean (map (\<lambda>idx. buf ! idx) cluster)"

text \<open>Step 5: the quality score of lines 1734--1742.\<close>

definition quality_score :: "real \<Rightarrow> real \<Rightarrow> real \<Rightarrow> real \<Rightarrow> real" where
  "quality_score cycle_duration avg_pulse_width avg_spacing spacing_std =
     (let duration_error =
            abs (cycle_duration - EXPECTED_CYCLE_DURATION_MS) / EXPECTED_CYCLE_DURATION_MS;
          width_error = abs (avg_pulse_width - 24 / 100) / (24 / 100);
          spacing_consistency =
            max 0 (if avg_spacing > 0 then 1 - spacing_std / avg_spacing else 0)
      in max 0 (1 - (duration_error + width_error + (1 - spacing_consistency)) / 3))"

definition spacings_of :: "real list \<Rightarrow> real list" where
  "spacings_of cycle_pulses =
     map (\<lambda>i. cycle_pulses ! i - cycle_pulses ! (i - 1)) [1..<length cycle_pulses]"

definition cycle_duration_of :: "real list \<Rightarrow> real list \<Rightarrow> real" where
  "cycle_duration_of cycle_pulses cycle_widths =
     last cycle_pulses - hd cycle_pulses + np_mean cycle_widths"

text \<open>The validation criteria of lines 1710--1723 and the test of line 1732.\<close>

definition cycle_ok :: "real list \<Rightarrow> real list \<Rightarrow> bool" where
  "cycle_ok cycle_pulses cycle_widths =
     (let cycle_duration = cycle_duration_of cycle_pulses cycle_widths;
          avg_pulse_width = np_mean cycle_widths;
          spacings = spacings_of cycle_pulses;
          cycle_duration_ok = (2 \<le> cycle_duration \<and> cycle_duration \<le> 6);
          pulse_width_ok = (1 / 10 \<le> avg_pulse_width \<and> avg_pulse_width \<le> 5 / 10);
          min_spacing = (if spacings \<noteq> [] then fold min (tl spacings) (hd spacings) else 0);
          max_spacing = (if spacings \<noteq> [] then fold max (tl spacings) (hd spacings) else 0);
          spacing_ok = (1 / 10 \<le> min_spacing \<and> min_spacing \<le> 2
                        \<and> 1 / 10 \<le> max_spacing \<and> max_spacing \<le> 2);
          pulse_count_ok = (length cycle_pulses = EXPECTED_PULSE_COUNT)
      in cycle_duration_ok \<and> pulse_width_ok \<and> spacing_ok \<and> pulse_count_ok)"

text \<open>
  One iteration of the loop of lines 1688--1773 at \<open>start_idx\<close>: the dictionary
  appended to \<^verbatim>\<open>valid_cycles\<close>, or \<open>None\<close> when the window is skipped or
  rejected.
\<close>

definition window :: "nat \<Rightarrow> 'a list \<Rightarrow> 'a list" where
  "window start xs = take EXPECTED_PULSE_COUNT (drop start xs)"

definition try_cycle ::
  "real list \<Rightarrow> real list \<Rightarrow> nat list list \<Rightarrow> real list \<Rightarrow> nat \<Rightarrow> cycle option" where
  "try_cycle pulse_center_times pulse_widths pulse_clusters pulse_voltages start =
     (let cycle_pulses = window start pulse_center_times;
          cycle_widths = window start pulse_widths;
          cycle_clusters = window start pulse_clusters
      in if length cycle_pulses \<noteq> EXPECTED_PULSE_COUNT then None
         else if cycle_ok cycle_pulses cycle_widths then
           (let spacings = spacings_of cycle_pulses;
                pulse_data =
                  sort_key fst
                    (zip cycle_pulses
                      (zip cycle_widths (zip cycle_clusters (window start pulse_voltages))))
            in Some \<lparr>start_idx = start,
                     quality = quality_score (cycle_duration_of cycle_pulses cycle_widths)
                                 (np_mean cycle_widths) (np_mean spacings) (np_std spacings),
                     pulses = cycle_pulses, widths = cycle_widths, clusters = cycle_clusters,
                     cycle_voltages = window start pulse_voltages,
                     sorted_pulse_times = map fst pulse_data,
                     sorted_pulse_widths = map (\<lambda>p. fst (snd p)) pulse_data,
                     sorted_pulse_clusters = map (\<lambda>p. fst (snd (snd p))) pulse_data,
                     sorted_pulse_voltages = map (\<lambda>p. snd (snd (snd p))) pulse_data\<rparr>)
         else None)"

text \<open>
  \<^verbatim>\<open>valid_cycles\<close> before line 1776. \<^verbatim>\<open>range(len(...) - 6 + 1)\<close> is empty when
  fewer than six clusters exist, as the truncated subtraction is.
\<close>

definition find_valid_cycles :: "real list \<Rightarrow> cycle list" where
  "find_valid_cycles voltages =
     (let sps = batch_sps voltages;
          pulse_clusters = find_pulse_clusters voltages;
          pulse_center_times = map (center_time sps) pulse_clusters;
          pulse_widths = map (cluster_width sps) pulse_clusters;
          pulse_voltages = map (cluster_voltage voltages) pulse_clusters
      in List.map_filter
           (try_cycle pulse_center_times pulse_widths pulse_clusters pulse_voltages)
           [0..<length pulse_center_times + 1 - EXPECTED_PULSE_COUNT])"

text \<open>
  Line 1776: \<^verbatim>\<open>list.sort\<close> is stable, also with \<^verbatim>\<open>reverse=True\<close>, so cycles of equal
  quality keep their order of discovery.
\<close>

definition sort_by_quality :: "cycle list \<Rightarrow> cycle list" where
  "sort_by_quality valid_cycles = sort_key (\<lambda>x. - quality x) valid_cycles"

definition detect_cycle_in_batch :: "real list \<Rightarrow> error + detection_result" where
  "detect_cycle_in_batch voltages =
     (case initial_result voltages of
        Inl e \<Rightarrow> Inl e
      | Inr result \<Rightarrow>
          if int (length voltages) < samples_per_cycle voltages then Inr result
          else
            (case sort_by_quality (find_valid_cycles voltages) of
               [] \<Rightarrow> Inr result
             | best_cycle # others \<Rightarrow>
                 Inr (result\<lparr>detected := True,
                             pulse_count := EXPECTED_PULSE_COUNT,
                             quality_r := quality best_cycle,
                             score := quality best_cycle,
                             pulse_width_ms := np_mean (sorted_pulse_widths best_cycle),
                             high_samples :=
                               length (filter (\<lambda>v. v > VOLTAGE_THRESHOLD) voltages),
                             sorted_pulse_times_r := Some (sorted_pulse_times best_cycle),
                             sorted_pulse_widths_r := Some (sorted_pulse_widths best_cycle),
                             sorted_pulse_clusters_r := Some (sorted_pulse_clusters best_cycle),
                             sorted_pulse_voltages_r := Some (sorted_pulse_voltages best_cycle),
                             total_valid_cycles := Some (length (best_cycle # others)),
                             all_valid_cycles := Some (best_cycle # others)\<rparr>)))"

section \<open>Per-batch processing (PulseSeer.py, lines 1375--1543)\<close>

text \<open>
  The single-shot \<^verbatim>\<open>QTimer\<close> \<^verbatim>\<open>no_pattern_timer\<close> is the field \<open>no_pattern_timer\<close>:
  \<open>None\<close> while inactive, \<open>Some r\<close> while running with \<open>r\<close> milliseconds left.
  \<^verbatim>\<open>start(3000)\<close> and \<^verbatim>\<open>stop()\<close> are the two assignments below; the passing of
  time is \<open>elapse\<close>, which calls the connected slot when the interval has run out.
  The statistics lists of lines 1461--1509 (intervals, scores, rate and quality
  histories) are written but never read by anything below and are left out, except
  \<^verbatim>\<open>cycle_timestamps\<close>.
\<close>

definition wavelengths :: "wavelength list" where
  "wavelengths = [nm700, nm800, nm850, nm900, nm970, nm1050]"

text \<open>Lines 1442--1447: one pulse of a cycle appended to its wavelength's buffer.\<close>

fun assign_pulse ::
  "nat \<times> real \<times> nat list \<times> real \<Rightarrow> main_window \<Rightarrow> main_window" where
  "assign_pulse (i, pulse_time, pulse_cluster, pulse_voltage) s =
     (if i < length wavelengths then
        (let wavelength = wavelengths ! i;
             gain = channel0_gain s
         in s\<lparr>sample_buffer :=
                (sample_buffer s)(wavelength :=
                   sample_buffer s wavelength @ [pulse_voltage / real_of_int gain])\<rparr>)
      else s)"

text \<open>Lines 1431--1456: the body of the loop over the cycles to process.\<close>

definition process_cycle :: "bool \<Rightarrow> real list \<Rightarrow> cycle \<Rightarrow> main_window \<Rightarrow> main_window" where
  "process_cycle spi_ok batch_voltages cycle_data s =
     (if length (sorted_pulse_times cycle_data) = 6
         \<and> length (sorted_pulse_clusters cycle_data) = 6 then
        (let s1 = fold assign_pulse
                    (enumerate 0 (zip (sorted_pulse_times cycle_data)
                                   (zip (sorted_pulse_clusters cycle_data)
                                        (sorted_pulse_voltages cycle_data)))) s;
             s2 = s1\<lparr>wavelength_cycle_count := wavelength_cycle_count s1 + 1\<rparr>
         in if list_ex (\<lambda>v. abs v < 1 / 10) (sorted_pulse_voltages cycle_data)
            then auto_adjust_gain spi_ok s2 0 batch_voltages (1 / 10) 1
            else s2)
      else s)"

definition on_detected ::
  "bool \<Rightarrow> real list \<Rightarrow> real \<Rightarrow> detection_result \<Rightarrow> main_window \<Rightarrow> main_window" where
  "on_detected spi_ok batch_voltages now pattern_result s =
     (let s1 = s\<lparr>cycle_detected_count := cycle_detected_count s + 1,
                  total_cycles_detected := total_cycles_detected s + 1,
                  no_pattern_timer := None,
                  pattern_detection_active := False\<rparr>;
          valid = (case all_valid_cycles pattern_result of Some cs \<Rightarrow> cs | None \<Rightarrow> []);
          total = (case total_valid_cycles pattern_result of Some n \<Rightarrow> n | None \<Rightarrow> 0);
          max_cycles_to_process = min 3 total;
          s2 = fold (\<lambda>cycle_idx. process_cycle spi_ok batch_voltages (valid ! cycle_idx))
                 [0..<max_cycles_to_process] s1;
          s3 = s2\<lparr>current_wavelength :=
                     wavelengths ! (wavelength_cycle_count s2 mod length wavelengths),
                   cycle_timestamps := cycle_timestamps s2 @ [now]\<rparr>;
          s4 = s3\<lparr>consecutive_cycles := consecutive_cycles s3 + 1\<rparr>;
          s5 = (if consecutive_cycles s4 \<ge> LOCK_THRESHOLD then s4\<lparr>is_locked := True\<rparr> else s4)
      in s5\<lparr>status_label_shown := False\<rparr>)"

definition on_not_detected :: "bool \<Rightarrow> real list \<Rightarrow> main_window \<Rightarrow> main_window" where
  "on_not_detected spi_ok batch_voltages s =
     (let s1 = s\<lparr>consecutive_cycles := 0, is_locked := False\<rparr>;
          s2 = (if \<not> pattern_detection_active s1
                then s1\<lparr>no_pattern_timer := Some 3000, pattern_detection_active := True\<rparr>
                else s1)
      in auto_adjust_gain spi_ok s2 0 batch_voltages (1 / 10) 1)"

text \<open>
  \<^verbatim>\<open>sample_data\<close>, given the batch that \<^verbatim>\<open>read_adc_batch\<close> returned and the value of
  \<^verbatim>\<open>time.time()\<close>; \<open>spi_ok\<close> is the fate of the gain writes made during the call.
\<close>

definition sample_data ::
  "bool \<Rightarrow> (real \<times> real) list \<Rightarrow> real \<Rightarrow> main_window \<Rightarrow> error + main_window" where
  "sample_data spi_ok batch now s =
     (if adc s = None then Inr s
      else
        let batch_voltages = map snd batch
        in if batch_voltages = [] then Inr s
           else
             (case detect_cycle_in_batch batch_voltages of
                Inl e \<Rightarrow> Inl e
              | Inr pattern_result \<Rightarrow>
                  let s1 = s\<lparr>adc_read_count := adc_read_count s + length batch_voltages\<rparr>;
                      avg_val = np_mean batch_voltages;
                      s2 = s1\<lparr>continuous_wavelength_cycle := continuous_wavelength_cycle s1 + 1\<rparr>;
                      continuous_wavelength =
                        PARAMETERS ! ((continuous_wavelength_cycle s2 - 1) mod length PARAMETERS);
                      s3 = s2\<lparr>continuous_sample_buffer :=
                                 (continuous_sample_buffer s2)(continuous_wavelength :=
                                    continuous_sample_buffer s2 continuous_wavelength @ [avg_val])\<rparr>
                  in if detected pattern_result
                     then Inr (on_detected spi_ok batch_voltages now pattern_result s3)
                     else Inr (on_not_detected spi_ok batch_voltages s3)))"

text \<open>
  The state of \<^verbatim>\<open>sample_data\<close> before it branches on the detection (lines 1399--1408):
  the read count, the round-robin counter and the continuous history are updated.
\<close>

definition after_bookkeeping :: "real list \<Rightarrow> main_window \<Rightarrow> main_window" where
  "after_bookkeeping vs s =
     s\<lparr>adc_read_count := adc_read_count s + length vs,
       continuous_wavelength_cycle := continuous_wavelength_cycle s + 1,
       continuous_sample_buffer :=
         (continuous_sample_buffer s)
           (PARAMETERS ! (continuous_wavelength_cycle s mod length PARAMETERS) :=
              continuous_sample_buffer s
                (PARAMETERS ! (continuous_wavelength_cycle s mod length PARAMETERS))
              @ [np_mean vs])\<rparr>"

text \<open>The slot connected to the timer, lines 2356--2361.\<close>

definition show_no_pattern_detected :: "main_window \<Rightarrow> main_window" where
  "show_no_pattern_detected s = s\<lparr>status_label_shown := True, pattern_detection_active := False\<rparr>"

definition elapse :: "nat \<Rightarrow> main_window \<Rightarrow> main_window" where
  "elapse ms s =
     (case no_pattern_timer s of
        None \<Rightarrow> s
      | Some r \<Rightarrow>
          if ms < r then s\<lparr>no_pattern_timer := Some (r - ms)\<rparr>
          else show_no_pattern_detected (s\<lparr>no_pattern_timer := None\<rparr>))"

section \<open>Reporting tick (PulseSeer.py, lines 1837--1892)\<close>

text \<open>
  What \<^verbatim>\<open>update_graph_from_buffer\<close> does to the two kinds of history; the averages
  it appends to the plotted data are not modelled.
\<close>

definition keep_last_50 :: "wavelength \<Rightarrow> main_window \<Rightarrow> main_window" where
  "keep_last_50 param s =
     (if length (continuous_sample_buffer s param) > 100
      then s\<lparr>continuous_sample_buffer :=
               (continuous_sample_buffer s)(param :=
                  drop (length (continuous_sample_buffer s param) - 50)
                       (continuous_sample_buffer s param))\<rparr>
      else s)"

definition graph_param :: "bool \<Rightarrow> wavelength \<Rightarrow> main_window \<Rightarrow> main_window" where
  "graph_param recent_pattern_detection param s =
     (if \<not> recent_pattern_detection \<and> continuous_sample_buffer s param \<noteq> []
      then keep_last_50 param s
      else if sample_buffer s param \<noteq> [] then s
      else if continuous_sample_buffer s param \<noteq> [] then keep_last_50 param s
      else s)"

definition clear_param :: "wavelength \<Rightarrow> main_window \<Rightarrow> main_window" where
  "clear_param param s =
     (if sample_buffer s param \<noteq> []
      then s\<lparr>sample_buffer := (sample_buffer s)(param := [])\<rparr>
      else s)"

definition update_graph_from_buffer :: "real \<Rightarrow> main_window \<Rightarrow> main_window" where
  "update_graph_from_buffer current_time s =
     (let recent_pattern_detection =
            (cycle_timestamps s \<noteq> [] \<and> current_time - last (cycle_timestamps s) < 2);
          s1 = (if \<not> recent_pattern_detection \<and> cycle_timestamps s \<noteq> []
                   \<and> current_time - last (cycle_timestamps s) > 5
                then fold clear_param PARAMETERS s
                else s)
      in fold (graph_param recent_pattern_detection) PARAMETERS s1)"

text \<open>The state after \<^verbatim>\<open>__init__\<close> and the start of a scan, with the given converter.\<close>

definition init_window :: "adc_dev option \<Rightarrow> main_window" where
  "init_window dev =
     \<lparr>adc = dev, sample_buffer = (\<lambda>param. []), continuous_sample_buffer = (\<lambda>param. []),
      continuous_wavelength_cycle = 0, adc_read_count = 0, cycle_detected_count = 0,
      total_cycles_detected = 0, wavelength_cycle_count = 0, current_wavelength = nm700,
      cycle_timestamps = [], consecutive_cycles = 0, is_locked = False,
      no_pattern_timer = None, pattern_detection_active = False,
      status_label_shown = False\<rparr>"

section \<open>A six-pulse batch\<close>

text \<open>
  Eighty samples (0.25 ms apart at the effective rate): six pulses of two samples each,
  one low sample between them, then silence.
\<close>

definition pulse_batch :: "real \<Rightarrow> real list" where
  "pulse_batch v =
     [v, v, 0, v, v, 0, v, v, 0, v, v, 0, v, v, 0, v, v, 0] @ replicate 62 0"

definition stamp :: "real list \<Rightarrow> (real \<times> real) list" where
  "stamp vs = map (Pair 0) vs"

definition pulse_cycle :: "real \<Rightarrow> cycle" where
  "pulse_cycle v =
     \<lparr>start_idx = 0, quality = 8803 / 9000,
      pulses = [1 / 8, 7 / 8, 13 / 8, 19 / 8, 25 / 8, 31 / 8],
      widths = [1 / 4, 1 / 4, 1 / 4, 1 / 4, 1 / 4, 1 / 4],
      clusters = [[0, 1], [3, 4], [6, 7], [9, 10], [12, 13], [15, 16]],
      cycle_voltages = [v, v, v, v, v, v],
      sorted_pulse_times = [1 / 8, 7 / 8, 13 / 8, 19 / 8, 25 / 8, 31 / 8],
      sorted_pulse_widths = [1 / 4, 1 / 4, 1 / 4, 1 / 4, 1 / 4, 1 / 4],
      sorted_pulse_clusters = [[0, 1], [3, 4], [6, 7], [9, 10], [12, 13], [15, 16]],
      sorted_pulse_voltages = [v, v, v, v, v, v]\<rparr>"

section \<open>The quality score in the words of the specification\<close>

text \<open>
  Section 4.2 of the specification, with the expected cycle duration as a parameter:
  the specification writes 3.9 for it.
\<close>

definition quality_formula :: "real \<Rightarrow> real list \<Rightarrow> real list \<Rightarrow> real" where
  "quality_formula expected cycle_pulses cycle_widths =
     (let span = last cycle_pulses - hd cycle_pulses + np_mean cycle_widths;
          mean_width = np_mean cycle_widths;
          spacings = spacings_of cycle_pulses;
          duration_error = abs (span - expected) / expected;
          width_error = abs (mean_width - 24 / 100) / (24 / 100);
          spacing_consistency = max 0 (1 - np_std spacings / np_mean spacings)
      in max 0 (1 - (duration_error + width_error + (1 - spacing_consistency)) / 3))"

definition spec_quality_score :: "real list \<Rightarrow> real list \<Rightarrow> real" where
  "spec_quality_score = quality_formula (39 / 10)"

section \<open>Notions used in the statements\<close>

text \<open>The position of a wavelength in \<^verbatim>\<open>wavelengths\<close>.\<close>

fun wl_index :: "wavelength \<Rightarrow> nat" where
  "wl_index nm700 = 0"
| "wl_index nm800 = 1"
| "wl_index nm850 = 2"
| "wl_index nm900 = 3"
| "wl_index nm970 = 4"
| "wl_index nm1050 = 5"

text \<open>The cycles of a batch that \<^verbatim>\<open>sample_data\<close> processes (lines 1420--1431).\<close>

definition processed_cycles :: "real list \<Rightarrow> cycle list" where
  "processed_cycles vs = take 3 (sort_by_quality (find_valid_cycles vs))"

text \<open>
  A run of the event loop: the sampling timer delivers batches to \<^verbatim>\<open>sample_data\<close> with
  the clock reading, and time passes in between. \<open>elapsed\<close> is the time that passed,
  \<open>quiet\<close> an event that brings no detection.
\<close>

datatype event = Batch "(real \<times> real) list" real | Elapse nat

fun run :: "bool \<Rightarrow> event list \<Rightarrow> main_window \<Rightarrow> error + main_window" where
  "run spi_ok [] s = Inr s"
| "run spi_ok (Batch batch now # rest) s =
     (case sample_data spi_ok batch now s of
        Inl e \<Rightarrow> Inl e
      | Inr s' \<Rightarrow> run spi_ok rest s')"
| "run spi_ok (Elapse ms # rest) s = run spi_ok rest (elapse ms s)"

fun elapsed :: "event list \<Rightarrow> nat" where
  "elapsed [] = 0"
| "elapsed (Batch batch now # rest) = elapsed rest"
| "elapsed (Elapse ms # rest) = ms + elapsed rest"

fun quiet :: "event \<Rightarrow> bool" where
  "quiet (Batch batch now) =
     (case detect_cycle_in_batch (map snd batch) of Inr r \<Rightarrow> \<not> detected r | Inl e \<Rightarrow> True)"
| "quiet (Elapse ms) = True"

definition detection_flag :: "real list \<Rightarrow> bool option" where
  "detection_flag vs =
     (case detect_cycle_in_batch vs of Inr r \<Rightarrow> Some (detected r) | Inl e \<Rightarrow> None)"

definition history_length :: "wavelength \<Rightarrow> error + main_window \<Rightarrow> nat option" where
  "history_length w res = (case res of Inr s \<Rightarrow> Some (length (sample_buffer s w)) | Inl e \<Rightarrow> None)"

definition gain_after :: "error + main_window \<Rightarrow> int option" where
  "gain_after res = (case res of Inr s \<Rightarrow> Some (channel0_gain s) | Inl e \<Rightarrow> None)"

text \<open>The flag \<^verbatim>\<open>pattern_detection_active\<close> tells whether the timer is running.\<close>

definition timer_consistent :: "main_window \<Rightarrow> bool" where
  "timer_consistent s \<longleftrightarrow> (pattern_detection_active s \<longleftrightarrow> no_pattern_timer s \<noteq> None)"

text \<open>
  The starting offsets whose window of six clusters passes the checks of lines
  1710--1723, read off the clusters directly.
\<close>

definition valid_windows :: "real list \<Rightarrow> nat list" where
  "valid_windows vs =
     filter
       (\<lambda>start. cycle_ok
          (window start (map (center_time (batch_sps vs)) (find_pulse_clusters vs)))
          (window start (map (cluster_width (batch_sps vs)) (find_pulse_clusters vs))))
       [0..<length (find_pulse_clusters vs) + 1 - EXPECTED_PULSE_COUNT]"

text \<open>
  The test of lines 1438 and 1455 under which a processed cycle calls the controller,
  and what one call of the controller with the thresholds of \<^verbatim>\<open>sample_data\<close> makes of
  the converter.
\<close>

definition cycle_triggers_gain :: "cycle \<Rightarrow> bool" where
  "cycle_triggers_gain c \<longleftrightarrow>
     length (sorted_pulse_times c) = 6 \<and> length (sorted_pulse_clusters c) = 6
     \<and> list_ex (\<lambda>v. abs v < 1 / 10) (sorted_pulse_voltages c)"

definition adjust_converter :: "bool \<Rightarrow> real list \<Rightarrow> adc_dev option \<Rightarrow> adc_dev option" where
  "adjust_converter spi_ok vb dev = adc (auto_adjust_gain spi_ok (init_window dev) 0 vb (1 / 10) 1)"

definition gain_calls :: "bool \<Rightarrow> real list \<Rightarrow> cycle list \<Rightarrow> adc_dev option \<Rightarrow> adc_dev option" where
  "gain_calls spi_ok vb cs dev =
     fold (\<lambda>c d. if cycle_triggers_gain c then adjust_converter spi_ok vb d else d) cs dev"

section \<open>A batch with three candidate windows\<close>

text \<open>
  Eighty samples again, eight pulses of two samples: the second pulse starts one sample
  late, so the window at offset 0 has one long spacing, the windows at offsets 1 and 2
  are evenly spaced.
\<close>

definition three_window_batch :: "real \<Rightarrow> real list" where
  "three_window_batch v =
     [v, v, 0, 0, v, v, 0, v, v, 0, v, v, 0, v, v, 0, v, v, 0, v, v, 0, v, v] @ replicate 56 0"

definition flat_cycle :: "nat \<Rightarrow> real \<Rightarrow> real list \<Rightarrow> nat list list \<Rightarrow> real \<Rightarrow> cycle" where
  "flat_cycle start q ts cls v =
     \<lparr>start_idx = start, quality = q, pulses = ts,
      widths = [1 / 4, 1 / 4, 1 / 4, 1 / 4, 1 / 4, 1 / 4],
      clusters = cls, cycle_voltages = [v, v, v, v, v, v],
      sorted_pulse_times = ts,
      sorted_pulse_widths = [1 / 4, 1 / 4, 1 / 4, 1 / 4, 1 / 4, 1 / 4],
      sorted_pulse_clusters = cls, sorted_pulse_voltages = [v, v, v, v, v, v]\<rparr>"

definition window0_cycle :: "real \<Rightarrow> cycle" where
  "window0_cycle v =
     flat_cycle 0 (2059 / 2250) [1 / 8, 9 / 8, 15 / 8, 21 / 8, 27 / 8, 33 / 8]
       [[0, 1], [4, 5], [7, 8], [10, 11], [13, 14], [16, 17]] v"

definition window1_cycle :: "real \<Rightarrow> cycle" where
  "window1_cycle v =
     flat_cycle 1 (8803 / 9000) [9 / 8, 15 / 8, 21 / 8, 27 / 8, 33 / 8, 39 / 8]
       [[4, 5], [7, 8], [10, 11], [13, 14], [16, 17], [19, 20]] v"

definition window2_cycle :: "real \<Rightarrow> cycle" where
  "window2_cycle v =
     flat_cycle 2 (8803 / 9000) [15 / 8, 21 / 8, 27 / 8, 33 / 8, 39 / 8, 45 / 8]
       [[7, 8], [10, 11], [13, 14], [16, 17], [19, 20], [22, 23]] v"

section \<open>The gain ladder\<close>

lemmas gain_defs = auto_adjust_gain_def channel0_gain_def current_gain_idx_def gain_values_def
  gain_steps_def try_set_gain_def set_gain_def driver_gain_values_def
  GAIN_1_def GAIN_2_def GAIN_4_def GAIN_8_def

lemma fold_max_le: "fold max xs (a::real) \<le> h \<longleftrightarrow> a \<le> h \<and> (\<forall>x\<in>set xs. x \<le> h)"
  by (induction xs arbitrary: a) auto

lemma max_voltage_le:
  "vb \<noteq> [] \<Longrightarrow>
   fold max (map abs (tl vb)) (abs (hd vb)) \<le> (h::real) \<longleftrightarrow> list_all (\<lambda>v. abs v \<le> h) vb"
  by (cases vb) (auto simp: fold_max_le list_all_iff)

lemma ladder_cases: "i < length gain_values \<Longrightarrow> i = 0 \<or> i = 1 \<or> i = 2 \<or> i = 3"
  by (auto simp: gain_values_def)

text \<open>
  Claim C3. With the ADS131M02 at ladder rung \<open>i\<close> and the gain write succeeding,
  \<^verbatim>\<open>auto_adjust_gain\<close> with thresholds 0.1 V and 1.0 V leaves the channel-0 gain one
  rung lower when some sample has \<open>|v| > 1.0\<close> (unchanged at rung 0); otherwise one
  rung higher when some sample has \<open>|v| < 0.1\<close> and all have \<open>|v| \<le> 1.0\<close> (unchanged
  at the top rung); otherwise unchanged. The resulting gain is again a ladder value,
  found by the index search at an index below the ladder's length.
\<close>

theorem auto_adjust_gain_policy:
  assumes dev: "adc s = Some (ADS131M02 (gain_values ! i, g1))"
    and i: "i < length gain_values"
    and ok: "spi_ok"
  shows "channel0_gain (auto_adjust_gain spi_ok s 0 vb (1 / 10) 1) =
           (if list_ex (\<lambda>v. abs v > 1) vb
            then (if i = 0 then gain_values ! i else gain_values ! (i - 1))
            else if list_ex (\<lambda>v. abs v < 1 / 10) vb \<and> list_all (\<lambda>v. abs v \<le> 1) vb
            then (if i = length gain_values - 1 then gain_values ! i else gain_values ! (i + 1))
            else gain_values ! i)
         \<and> current_gain_idx (channel0_gain (auto_adjust_gain spi_ok s 0 vb (1 / 10) 1))
             < length gain_values
         \<and> gain_values ! current_gain_idx (channel0_gain (auto_adjust_gain spi_ok s 0 vb (1 / 10) 1))
             = channel0_gain (auto_adjust_gain spi_ok s 0 vb (1 / 10) 1)"
proof (cases "vb = []")
  case True
  with dev ladder_cases [OF i] show ?thesis
    by (auto simp: gain_defs)
next
  case False
  then have mx: "fold max (map abs (tl vb)) (abs (hd vb)) \<le> 1 \<longleftrightarrow> list_all (\<lambda>v. abs v \<le> 1) vb"
    by (rule max_voltage_le)
  from ladder_cases [OF i] show ?thesis
  proof (elim disjE)
    assume "i = 0"
    with dev ok False show ?thesis by (simp add: gain_defs mx Let_def)
  next
    assume "i = 1"
    with dev ok False show ?thesis by (simp add: gain_defs mx Let_def)
  next
    assume "i = 2"
    with dev ok False show ?thesis by (simp add: gain_defs mx Let_def)
  next
    assume "i = 3"
    with dev ok False show ?thesis by (simp add: gain_defs mx Let_def)
  qed
qed

theorem auto_adjust_gain_policy_witness:
  "channel0_gain (auto_adjust_gain True (init_window (Some (ADS131M02 (4, 1)))) 0
       [3 / 2, 1 / 20] (1 / 10) 1) = 2
   \<and> channel0_gain (auto_adjust_gain True (init_window (Some (ADS131M02 (2, 1)))) 0
       [1 / 20, 1 / 50] (1 / 10) 1) = 4"
proof -
  have d4: "adc (init_window (Some (ADS131M02 (4, 1)))) = Some (ADS131M02 (gain_values ! 2, 1))"
    by (simp add: init_window_def gain_values_def)
  have d2: "adc (init_window (Some (ADS131M02 (2, 1)))) = Some (ADS131M02 (gain_values ! 1, 1))"
    by (simp add: init_window_def gain_values_def)
  have i2: "2 < length gain_values" and i1: "1 < length gain_values"
    by (simp_all add: gain_values_def)
  show ?thesis
    using auto_adjust_gain_policy [OF d4 i2 TrueI, of "[3 / 2, 1 / 20]"]
      auto_adjust_gain_policy [OF d2 i1 TrueI, of "[1 / 20, 1 / 50]"]
    by (simp add: gain_values_def)
qed

text \<open>
  Claim C8. \<^verbatim>\<open>auto_adjust_gain\<close> never touches the pattern-based histories; when it
  changes the channel-0 gain, the continuous history of every wavelength is empty
  afterwards; when it leaves the gain as it was, the continuous histories are as
  they were.
\<close>

theorem gain_change_clears_continuous_only:
  "sample_buffer (auto_adjust_gain spi_ok s channel vb lo hi) = sample_buffer s
   \<and> (channel0_gain (auto_adjust_gain spi_ok s channel vb lo hi) \<noteq> channel0_gain s
        \<longrightarrow> (\<forall>param. continuous_sample_buffer
                        (auto_adjust_gain spi_ok s channel vb lo hi) param = []))
   \<and> (channel0_gain (auto_adjust_gain spi_ok s channel vb lo hi) = channel0_gain s
        \<longrightarrow> continuous_sample_buffer (auto_adjust_gain spi_ok s channel vb lo hi)
              = continuous_sample_buffer s)"
  by (auto simp: gain_defs Let_def clear_continuous_def split: option.splits adc_dev.splits)

theorem gain_change_clears_continuous_only_witness:
  "(\<forall>param. continuous_sample_buffer
       (auto_adjust_gain True
          ((init_window (Some (ADS131M02 (4, 1))))\<lparr>continuous_sample_buffer := (\<lambda>param. [1 / 2]),
              sample_buffer := (\<lambda>param. [3 / 10])\<rparr>) 0 [3 / 2] (1 / 10) 1) param = [])
   \<and> continuous_sample_buffer
       (auto_adjust_gain True
          ((init_window (Some (ADS131M02 (4, 1))))\<lparr>continuous_sample_buffer := (\<lambda>param. [1 / 2]),
              sample_buffer := (\<lambda>param. [3 / 10])\<rparr>) 0 [1 / 2] (1 / 10) 1) nm700 = [1 / 2]"
proof -
  let ?s = "(init_window (Some (ADS131M02 (4, 1))))\<lparr>continuous_sample_buffer := (\<lambda>param. [1 / 2]),
              sample_buffer := (\<lambda>param. [3 / 10])\<rparr>"
  have changed: "channel0_gain (auto_adjust_gain True ?s 0 [3 / 2] (1 / 10) 1) \<noteq> channel0_gain ?s"
    by (simp add: gain_defs init_window_def)
  have same: "channel0_gain (auto_adjust_gain True ?s 0 [1 / 2] (1 / 10) 1) = channel0_gain ?s"
    by (simp add: gain_defs init_window_def)
  show ?thesis
    using gain_change_clears_continuous_only [of True ?s 0 "[3 / 2]" "1 / 10" 1] changed
      gain_change_clears_continuous_only [of True ?s 0 "[1 / 2]" "1 / 10" 1] same
    by simp
qed

section \<open>Empty batches\<close>

text \<open>
  Claim C10. When \<^verbatim>\<open>read_adc_batch\<close> returns no reading, \<^verbatim>\<open>sample_data\<close> returns
  with every field of the window as it was: no detection, no history entry, no
  change of counter, lock, gain or timer.
\<close>

theorem empty_batch_is_noop: "sample_data spi_ok [] now s = Inr s"
  by (simp add: sample_data_def)

section \<open>The six-pulse batch, evaluated\<close>

lemma pulse_batch_length: "length (pulse_batch v) = 80"
  by (simp add: pulse_batch_def)

lemma loop_Suc: "cluster_loop buf (Suc n) = cluster_step buf n (cluster_loop buf n)"
  by (simp add: cluster_loop_def)

lemma loop_low:
  "cluster_loop buf a = (pcs, [], False) \<Longrightarrow> a \<le> n
   \<Longrightarrow> \<forall>i. a \<le> i \<and> i < n \<longrightarrow> \<not> buf ! i > VOLTAGE_THRESHOLD
   \<Longrightarrow> cluster_loop buf n = (pcs, [], False)"
proof (induction n)
  case 0
  then show ?case by simp
next
  case (Suc n)
  show ?case
  proof (cases "a = Suc n")
    case True
    with Suc.prems show ?thesis by simp
  next
    case False
    with Suc.prems have "a \<le> n" by simp
    with Suc have "cluster_loop buf n = (pcs, [], False)" by simp
    moreover from Suc.prems \<open>a \<le> n\<close> have "\<not> buf ! n > VOLTAGE_THRESHOLD" by simp
    ultimately show ?thesis by (simp add: loop_Suc)
  qed
qed

lemma pulse_loop18:
  assumes "1 / 10 < v"
  shows "cluster_loop (pulse_batch v) 18 = ([[0,1],[3,4],[6,7],[9,10],[12,13],[15,16]], [], False)"
proof -
  have "cluster_loop (pulse_batch v) 0 = ([], [], False)"
    by (simp add: cluster_loop_def)
  with assms show ?thesis
    by (simp add: eval_nat_numeral loop_Suc pulse_batch_def VOLTAGE_THRESHOLD_def)
qed

lemma pulse_batch_tail:
  assumes "18 \<le> i" "i < 80"
  shows "pulse_batch v ! i = 0"
proof -
  obtain h where h: "pulse_batch v = h @ replicate 62 0" "length h = 18"
    by (simp add: pulse_batch_def)
  from assms have "i - 18 < 62" by simp
  with h assms show ?thesis
    by (simp add: nth_append)
qed

lemma pulse_clusters:
  assumes "1 / 10 < v"
  shows "find_pulse_clusters (pulse_batch v) = [[0,1],[3,4],[6,7],[9,10],[12,13],[15,16]]"
proof -
  have "\<forall>i. 18 \<le> i \<and> i < 80 \<longrightarrow> \<not> pulse_batch v ! i > VOLTAGE_THRESHOLD"
    by (simp add: pulse_batch_tail VOLTAGE_THRESHOLD_def)
  then have "cluster_loop (pulse_batch v) 80 = ([[0,1],[3,4],[6,7],[9,10],[12,13],[15,16]], [], False)"
    using loop_low [OF pulse_loop18 [OF assms], of 80] by simp
  then show ?thesis
    by (simp add: find_pulse_clusters_def pulse_batch_length)
qed


lemma pulse_times:
  "map (center_time 4000) [[0,1],[3,4],[6,7],[9,10],[12,13],[15,16]]
     = [1 / 8, 7 / 8, 13 / 8, 19 / 8, 25 / 8, 31 / 8]"
  by (simp add: center_time_def np_mean_def)

lemma pulse_widths:
  "map (cluster_width 4000) [[0,1],[3,4],[6,7],[9,10],[12,13],[15,16]]
     = [1 / 4, 1 / 4, 1 / 4, 1 / 4, 1 / 4, 1 / 4]"
  by (simp add: cluster_width_def)

lemma pulse_voltages:
  "map (cluster_voltage (pulse_batch v)) [[0,1],[3,4],[6,7],[9,10],[12,13],[15,16]]
     = [v, v, v, v, v, v]"
  by (simp add: cluster_voltage_def np_mean_def pulse_batch_def)

lemma pulse_spacings:
  "spacings_of [1 / 8, 7 / 8, 13 / 8, 19 / 8, 25 / 8, 31 / 8] = [3 / 4, 3 / 4, 3 / 4, 3 / 4, 3 / 4]"
  by (simp add: spacings_of_def eval_nat_numeral upt_rec)

lemma pulse_spacing_std: "np_std [3 / 4, 3 / 4, 3 / 4, 3 / 4, 3 / 4] = 0"
  by (simp add: np_std_def np_mean_def)

lemma pulse_cycle_ok:
  "cycle_ok [1 / 8, 7 / 8, 13 / 8, 19 / 8, 25 / 8, 31 / 8] [1 / 4, 1 / 4, 1 / 4, 1 / 4, 1 / 4, 1 / 4]"
  by (simp add: cycle_ok_def pulse_spacings cycle_duration_of_def np_mean_def
      EXPECTED_PULSE_COUNT_def)

lemma pulse_quality:
  "quality_score (cycle_duration_of [1 / 8, 7 / 8, 13 / 8, 19 / 8, 25 / 8, 31 / 8]
                    [1 / 4, 1 / 4, 1 / 4, 1 / 4, 1 / 4, 1 / 4])
     (np_mean [1 / 4, 1 / 4, 1 / 4, 1 / 4, 1 / 4, 1 / 4])
     (np_mean [3 / 4, 3 / 4, 3 / 4, 3 / 4, 3 / 4]) 0 = 8803 / 9000"
  by (simp add: quality_score_def cycle_duration_of_def np_mean_def
      EXPECTED_CYCLE_DURATION_MS_def EXPECTED_CYCLE_FREQUENCY_HZ_def)

lemma pulse_try_cycle:
  "try_cycle [1 / 8, 7 / 8, 13 / 8, 19 / 8, 25 / 8, 31 / 8]
     [1 / 4, 1 / 4, 1 / 4, 1 / 4, 1 / 4, 1 / 4]
     [[0,1],[3,4],[6,7],[9,10],[12,13],[15,16]] [v, v, v, v, v, v] 0 = Some (pulse_cycle v)"
  by (simp add: try_cycle_def window_def EXPECTED_PULSE_COUNT_def pulse_cycle_ok
      pulse_spacings pulse_spacing_std pulse_quality pulse_cycle_def Let_def)

lemma pulse_valid_cycles:
  assumes "1 / 10 < v"
  shows "find_valid_cycles (pulse_batch v) = [pulse_cycle v]"
proof -
  have sps: "batch_sps (pulse_batch v) = 4000"
    by (simp add: batch_sps_def pulse_batch_length)
  have "find_valid_cycles (pulse_batch v) =
          List.map_filter
            (try_cycle [1 / 8, 7 / 8, 13 / 8, 19 / 8, 25 / 8, 31 / 8]
               [1 / 4, 1 / 4, 1 / 4, 1 / 4, 1 / 4, 1 / 4]
               [[0,1],[3,4],[6,7],[9,10],[12,13],[15,16]] [v, v, v, v, v, v])
            [0..<length [1 / 8, 7 / 8, 13 / 8, 19 / 8, 25 / 8, 31 / 8 :: real] + 1
                   - EXPECTED_PULSE_COUNT]"
    unfolding find_valid_cycles_def Let_def sps pulse_clusters [OF assms] pulse_times
      pulse_widths pulse_voltages ..
  also have "\<dots> = [pulse_cycle v]"
    using pulse_try_cycle [of v]
    by (simp add: EXPECTED_PULSE_COUNT_def List.map_filter_simps)
  finally show ?thesis .
qed

section \<open>The three-window batch, evaluated\<close>

lemma three_window_length: "length (three_window_batch v) = 80"
  by (simp add: three_window_batch_def)

lemma three_window_loop24:
  assumes "1 / 10 < v"
  shows "cluster_loop (three_window_batch v) 24 =
           ([[0,1],[4,5],[7,8],[10,11],[13,14],[16,17],[19,20]], [22,23], True)"
proof -
  have "cluster_loop (three_window_batch v) 0 = ([], [], False)"
    by (simp add: cluster_loop_def)
  with assms show ?thesis
    by (simp add: eval_nat_numeral loop_Suc three_window_batch_def VOLTAGE_THRESHOLD_def)
qed

lemma three_window_tail:
  assumes "24 \<le> i" "i < 80"
  shows "three_window_batch v ! i = 0"
proof -
  obtain h where h: "three_window_batch v = h @ replicate 56 0" "length h = 24"
    by (simp add: three_window_batch_def)
  from assms have "i - 24 < 56" by simp
  with h assms show ?thesis
    by (simp add: nth_append)
qed

lemma three_window_clusters:
  assumes "1 / 10 < v"
  shows "find_pulse_clusters (three_window_batch v) =
           [[0,1],[4,5],[7,8],[10,11],[13,14],[16,17],[19,20],[22,23]]"
proof -
  have l25: "cluster_loop (three_window_batch v) 25 =
      ([[0,1],[4,5],[7,8],[10,11],[13,14],[16,17],[19,20],[22,23]], [], False)"
    using three_window_loop24 [OF assms] three_window_tail [of 24 v]
    by (simp add: loop_Suc [of _ 24, simplified] VOLTAGE_THRESHOLD_def)
  have "\<forall>i. 25 \<le> i \<and> i < 80 \<longrightarrow> \<not> three_window_batch v ! i > VOLTAGE_THRESHOLD"
    by (simp add: three_window_tail VOLTAGE_THRESHOLD_def)
  then have "cluster_loop (three_window_batch v) 80 =
      ([[0,1],[4,5],[7,8],[10,11],[13,14],[16,17],[19,20],[22,23]], [], False)"
    using loop_low [OF l25, of 80] by simp
  then show ?thesis
    by (simp add: find_pulse_clusters_def three_window_length)
qed


lemma three_window_times:
  "map (center_time 4000) [[0,1],[4,5],[7,8],[10,11],[13,14],[16,17],[19,20],[22,23]]
     = [1 / 8, 9 / 8, 15 / 8, 21 / 8, 27 / 8, 33 / 8, 39 / 8, 45 / 8]"
  by (simp add: center_time_def np_mean_def)

lemma three_window_widths:
  "map (cluster_width 4000) [[0,1],[4,5],[7,8],[10,11],[13,14],[16,17],[19,20],[22,23]]
     = [1 / 4, 1 / 4, 1 / 4, 1 / 4, 1 / 4, 1 / 4, 1 / 4, 1 / 4]"
  by (simp add: cluster_width_def)

lemma three_window_voltages:
  "map (cluster_voltage (three_window_batch v))
       [[0,1],[4,5],[7,8],[10,11],[13,14],[16,17],[19,20],[22,23]]
     = [v, v, v, v, v, v, v, v]"
  by (simp add: cluster_voltage_def np_mean_def three_window_batch_def)

lemma sqrt_hundredth: "sqrt (1 / 100) = 1 / 10"
  by (rule real_sqrt_unique) (simp_all add: power2_eq_square)

lemma long_spacings:
  "spacings_of [1 / 8, 9 / 8, 15 / 8, 21 / 8, 27 / 8, 33 / 8] = [1, 3 / 4, 3 / 4, 3 / 4, 3 / 4]"
  by (simp add: spacings_of_def eval_nat_numeral upt_rec)

lemma long_spacing_std: "np_std [1, 3 / 4, 3 / 4, 3 / 4, 3 / 4] = 1 / 10"
  by (simp add: np_std_def np_mean_def power2_eq_square sqrt_hundredth)

lemma even_spacings1:
  "spacings_of [9 / 8, 15 / 8, 21 / 8, 27 / 8, 33 / 8, 39 / 8] = [3 / 4, 3 / 4, 3 / 4, 3 / 4, 3 / 4]"
  by (simp add: spacings_of_def eval_nat_numeral upt_rec)

lemma even_spacings2:
  "spacings_of [15 / 8, 21 / 8, 27 / 8, 33 / 8, 39 / 8, 45 / 8] = [3 / 4, 3 / 4, 3 / 4, 3 / 4, 3 / 4]"
  by (simp add: spacings_of_def eval_nat_numeral upt_rec)

lemmas three_window_simps = try_cycle_def window_def EXPECTED_PULSE_COUNT_def cycle_ok_def
  cycle_duration_of_def quality_score_def np_mean_def EXPECTED_CYCLE_DURATION_MS_def
  EXPECTED_CYCLE_FREQUENCY_HZ_def flat_cycle_def Let_def

lemma three_window_try0:
  "try_cycle [1 / 8, 9 / 8, 15 / 8, 21 / 8, 27 / 8, 33 / 8, 39 / 8, 45 / 8]
     [1 / 4, 1 / 4, 1 / 4, 1 / 4, 1 / 4, 1 / 4, 1 / 4, 1 / 4]
     [[0,1],[4,5],[7,8],[10,11],[13,14],[16,17],[19,20],[22,23]]
     [v, v, v, v, v, v, v, v] 0 = Some (window0_cycle v)"
  by (simp add: three_window_simps long_spacings long_spacing_std window0_cycle_def)

lemma three_window_try1:
  "try_cycle [1 / 8, 9 / 8, 15 / 8, 21 / 8, 27 / 8, 33 / 8, 39 / 8, 45 / 8]
     [1 / 4, 1 / 4, 1 / 4, 1 / 4, 1 / 4, 1 / 4, 1 / 4, 1 / 4]
     [[0,1],[4,5],[7,8],[10,11],[13,14],[16,17],[19,20],[22,23]]
     [v, v, v, v, v, v, v, v] 1 = Some (window1_cycle v)"
  by (simp add: three_window_simps even_spacings1 pulse_spacing_std window1_cycle_def)

lemma three_window_try2:
  "try_cycle [1 / 8, 9 / 8, 15 / 8, 21 / 8, 27 / 8, 33 / 8, 39 / 8, 45 / 8]
     [1 / 4, 1 / 4, 1 / 4, 1 / 4, 1 / 4, 1 / 4, 1 / 4, 1 / 4]
     [[0,1],[4,5],[7,8],[10,11],[13,14],[16,17],[19,20],[22,23]]
     [v, v, v, v, v, v, v, v] 2 = Some (window2_cycle v)"
  by (simp add: three_window_simps even_spacings2 pulse_spacing_std window2_cycle_def
      eval_nat_numeral)

lemma three_window_valid_cycles:
  assumes "1 / 10 < v"
  shows "find_valid_cycles (three_window_batch v)
           = [window0_cycle v, window1_cycle v, window2_cycle v]"
proof -
  have sps: "batch_sps (three_window_batch v) = 4000"
    by (simp add: batch_sps_def three_window_length)
  have "find_valid_cycles (three_window_batch v) =
          List.map_filter
            (try_cycle [1 / 8, 9 / 8, 15 / 8, 21 / 8, 27 / 8, 33 / 8, 39 / 8, 45 / 8]
               [1 / 4, 1 / 4, 1 / 4, 1 / 4, 1 / 4, 1 / 4, 1 / 4, 1 / 4]
               [[0,1],[4,5],[7,8],[10,11],[13,14],[16,17],[19,20],[22,23]]
               [v, v, v, v, v, v, v, v])
            [0..<length [1 / 8, 9 / 8, 15 / 8, 21 / 8, 27 / 8, 33 / 8, 39 / 8, 45 / 8 :: real] + 1
                   - EXPECTED_PULSE_COUNT]"
    unfolding find_valid_cycles_def Let_def sps three_window_clusters [OF assms]
      three_window_times three_window_widths three_window_voltages ..
  also have "[0..<length [1 / 8, 9 / 8, 15 / 8, 21 / 8, 27 / 8, 33 / 8, 39 / 8, 45 / 8 :: real] + 1
                   - EXPECTED_PULSE_COUNT] = [0, 1, 2]"
    by (simp add: EXPECTED_PULSE_COUNT_def upt_rec)
  also have "List.map_filter
            (try_cycle [1 / 8, 9 / 8, 15 / 8, 21 / 8, 27 / 8, 33 / 8, 39 / 8, 45 / 8]
               [1 / 4, 1 / 4, 1 / 4, 1 / 4, 1 / 4, 1 / 4, 1 / 4, 1 / 4]
               [[0,1],[4,5],[7,8],[10,11],[13,14],[16,17],[19,20],[22,23]]
               [v, v, v, v, v, v, v, v]) [0, 1, 2]
          = [window0_cycle v, window1_cycle v, window2_cycle v]"
    by (simp only: List.map_filter_simps three_window_try0 three_window_try1 three_window_try2
        option.case)
  finally show ?thesis .
qed

lemma three_window_sorted:
  assumes "1 / 10 < v"
  shows "sort_by_quality (find_valid_cycles (three_window_batch v))
           = [window1_cycle v, window2_cycle v, window0_cycle v]"
  by (simp add: three_window_valid_cycles [OF assms] sort_by_quality_def
      window0_cycle_def window1_cycle_def window2_cycle_def flat_cycle_def)

section \<open>The quality score\<close>

lemma fold_min_ge: "h \<le> fold min xs (a::real) \<longleftrightarrow> h \<le> a \<and> (\<forall>x\<in>set xs. h \<le> x)"
  by (induction xs arbitrary: a) auto

lemma sum_list_lower: "(\<forall>x\<in>set xs. h \<le> x) \<Longrightarrow> h * real (length xs) \<le> sum_list (xs::real list)"
  by (induction xs) (auto simp: algebra_simps)

lemma np_mean_lower:
  assumes "xs \<noteq> []" "\<forall>x\<in>set xs. h \<le> x"
  shows "h \<le> np_mean xs"
proof -
  from assms(1) have pos: "0 < real (length xs)" by simp
  from sum_list_lower [OF assms(2)] pos show ?thesis
    by (simp add: np_mean_def pos_le_divide_eq)
qed

lemma spacings_length: "length (spacings_of cp) = length cp - 1"
  by (simp add: spacings_of_def)

lemma cycle_ok_mean_spacing:
  assumes "cycle_ok cp cw"
  shows "0 < np_mean (spacings_of cp)"
proof -
  from assms have len: "length cp = 6"
    by (simp add: cycle_ok_def Let_def EXPECTED_PULSE_COUNT_def)
  then have ne: "spacings_of cp \<noteq> []"
    using spacings_length [of cp] by auto
  with assms have "1 / 10 \<le> fold min (tl (spacings_of cp)) (hd (spacings_of cp))"
    by (simp add: cycle_ok_def Let_def)
  then have "\<forall>x\<in>set (spacings_of cp). 1 / 10 \<le> x"
    using ne by (cases "spacings_of cp") (auto simp: fold_min_ge)
  from np_mean_lower [OF ne this] show ?thesis by simp
qed

lemma quality_score_formula:
  assumes "cycle_ok cp cw"
  shows "quality_score (cycle_duration_of cp cw) (np_mean cw) (np_mean (spacings_of cp))
           (np_std (spacings_of cp)) = quality_formula (1000 / 256) cp cw"
  using cycle_ok_mean_spacing [OF assms]
  by (simp add: quality_score_def quality_formula_def cycle_duration_of_def Let_def
      EXPECTED_CYCLE_DURATION_MS_def EXPECTED_CYCLE_FREQUENCY_HZ_def)

lemma try_cycle_None:
  "try_cycle pct pw pcl pv start = None \<longleftrightarrow> \<not> cycle_ok (window start pct) (window start pw)"
  by (auto simp: try_cycle_def Let_def cycle_ok_def)

lemma try_cycle_Some:
  assumes "try_cycle pct pw pcl pv start = Some c"
  shows "cycle_ok (window start pct) (window start pw)"
    and "pulses c = window start pct" and "widths c = window start pw"
    and "start_idx c = start"
    and "quality c = quality_formula (1000 / 256) (window start pct) (window start pw)"
proof -
  from assms show ok: "cycle_ok (window start pct) (window start pw)"
    using try_cycle_None [of pct pw pcl pv start] by auto
  from assms ok show "pulses c = window start pct" "widths c = window start pw"
    "start_idx c = start"
    by (auto simp: try_cycle_def Let_def split: if_splits)
  from assms ok show "quality c = quality_formula (1000 / 256) (window start pct) (window start pw)"
    by (auto simp: try_cycle_def Let_def quality_score_formula split: if_splits)
qed

lemma valid_cycle_origin:
  assumes "c \<in> set (find_valid_cycles vs)"
  shows "\<exists>start. try_cycle (map (center_time (batch_sps vs)) (find_pulse_clusters vs))
                    (map (cluster_width (batch_sps vs)) (find_pulse_clusters vs))
                    (find_pulse_clusters vs)
                    (map (cluster_voltage vs) (find_pulse_clusters vs)) start = Some c"
  using assms by (auto simp: find_valid_cycles_def Let_def List.map_filter_def)

text \<open>
  Claim C4, as amended. Every cycle kept in \<^verbatim>\<open>valid_cycles\<close> passes the span, width
  and spacing checks and carries the quality
  \<open>max 0 (1 - (duration_error + width_error + (1 - spacing_consistency)) / 3)\<close> with
  \<open>duration_error = |span - 3.90625| / 3.90625\<close> (the expected duration is 1000/256 ms),
  \<open>width_error = |mean_width - 0.24| / 0.24\<close> and
  \<open>spacing_consistency = max 0 (1 - std spacings / mean spacings)\<close>; a window that
  fails a check yields no cycle at all.
\<close>

theorem valid_cycle_quality:
  "(c \<in> set (find_valid_cycles vs) \<longrightarrow>
      cycle_ok (pulses c) (widths c)
      \<and> quality c = quality_formula (1000 / 256) (pulses c) (widths c))
   \<and> (try_cycle pct pw pcl pv start = None
        \<longleftrightarrow> \<not> cycle_ok (window start pct) (window start pw))
   \<and> (\<forall>c'. try_cycle pct pw pcl pv start = Some c' \<longrightarrow>
        quality c' = quality_formula (1000 / 256) (window start pct) (window start pw))"
proof (intro conjI impI allI)
  assume "c \<in> set (find_valid_cycles vs)"
  from valid_cycle_origin [OF this] obtain st where
    "try_cycle (map (center_time (batch_sps vs)) (find_pulse_clusters vs))
       (map (cluster_width (batch_sps vs)) (find_pulse_clusters vs))
       (find_pulse_clusters vs)
       (map (cluster_voltage vs) (find_pulse_clusters vs)) st = Some c"
    by blast
  from try_cycle_Some [OF this]
  show "cycle_ok (pulses c) (widths c)"
    and "quality c = quality_formula (1000 / 256) (pulses c) (widths c)"
    by simp_all
next
  show "try_cycle pct pw pcl pv start = None
        \<longleftrightarrow> \<not> cycle_ok (window start pct) (window start pw)"
    by (rule try_cycle_None)
next
  fix c'
  assume "try_cycle pct pw pcl pv start = Some c'"
  then show "quality c' = quality_formula (1000 / 256) (window start pct) (window start pw)"
    by (rule try_cycle_Some)
qed

theorem valid_cycle_quality_witness:
  "quality_formula (1000 / 256) [1 / 8, 7 / 8, 13 / 8, 19 / 8, 25 / 8, 31 / 8]
     [1 / 4, 1 / 4, 1 / 4, 1 / 4, 1 / 4, 1 / 4] = 8803 / 9000"
proof -
  have "pulse_cycle (3 / 10) \<in> set (find_valid_cycles (pulse_batch (3 / 10)))"
    by (simp add: pulse_valid_cycles)
  with valid_cycle_quality [of "pulse_cycle (3 / 10)" "pulse_batch (3 / 10)" "[]" "[]" "[]" "[]" 0]
  have "quality (pulse_cycle (3 / 10))
          = quality_formula (1000 / 256) (pulses (pulse_cycle (3 / 10)))
              (widths (pulse_cycle (3 / 10)))"
    by blast
  then show ?thesis by (simp add: pulse_cycle_def)
qed

text \<open>
  Claim C4 as stated, with 3.9 for the expected duration, fails on the six-pulse batch:
  the code scores its only valid cycle 8803/9000, the formula of the specification
  gives 305/312.
\<close>

theorem spec_quality_counterexample:
  "find_valid_cycles (pulse_batch (3 / 10)) = [pulse_cycle (3 / 10)]
   \<and> quality (pulse_cycle (3 / 10)) = 8803 / 9000
   \<and> spec_quality_score (pulses (pulse_cycle (3 / 10))) (widths (pulse_cycle (3 / 10)))
       = 305 / 312"
proof -
  have "spec_quality_score [1 / 8, 7 / 8, 13 / 8, 19 / 8, 25 / 8, 31 / 8]
          [1 / 4, 1 / 4, 1 / 4, 1 / 4, 1 / 4, 1 / 4] = 305 / 312"
    by (simp add: spec_quality_score_def quality_formula_def pulse_spacings pulse_spacing_std
        np_mean_def)
  then show ?thesis
    by (simp add: pulse_valid_cycles pulse_cycle_def)
qed

section \<open>What detection returns\<close>

lemma py_round_le: "x \<le> of_int n \<Longrightarrow> py_round x \<le> n"
proof -
  assume x: "x \<le> of_int n"
  then have f: "\<lfloor>x\<rfloor> \<le> n" by (simp add: floor_le_iff) 
  show ?thesis
  proof (cases "x = of_int n")
    case True
    then show ?thesis by (simp add: py_round_def)
  next
    case False
    with x have "x < of_int n" by simp
    then have "\<lfloor>x\<rfloor> < n" by (simp add: floor_less_iff)
    then show ?thesis by (simp add: py_round_def Let_def)
  qed
qed

lemma enough_samples: "\<not> int (length vs) < samples_per_cycle vs"
proof -
  have "EXPECTED_CYCLE_DURATION_MS * (batch_sps vs / 1000) \<le> of_int (int (length vs))"
    by (simp add: EXPECTED_CYCLE_DURATION_MS_def EXPECTED_CYCLE_FREQUENCY_HZ_def batch_sps_def)
  then have "samples_per_cycle vs \<le> int (length vs)"
    unfolding samples_per_cycle_def by (rule py_round_le)
  then show ?thesis by simp
qed

lemma initial_result_nonempty:
  "vs \<noteq> [] \<Longrightarrow> \<exists>r. initial_result vs = Inr r \<and> \<not> detected r
     \<and> stats r = \<lparr>mean_v = np_mean vs, std_v = np_std vs,
                   min_v = Min (set vs), max_v = Max (set vs)\<rparr>"
  by (cases vs)
    (simp_all add: initial_result_def Min.set_eq_fold [symmetric] Max.set_eq_fold [symmetric]
      del: set_simps)

lemma detect_nonempty:
  assumes "vs \<noteq> []"
  shows "\<exists>r. detect_cycle_in_batch vs = Inr r
     \<and> stats r = \<lparr>mean_v = np_mean vs, std_v = np_std vs,
                   min_v = Min (set vs), max_v = Max (set vs)\<rparr>
     \<and> (detected r \<longleftrightarrow> find_valid_cycles vs \<noteq> [])
     \<and> (detected r \<longrightarrow> all_valid_cycles r = Some (sort_by_quality (find_valid_cycles vs))
           \<and> total_valid_cycles r = Some (length (find_valid_cycles vs)))"
proof -
  from initial_result_nonempty [OF assms] obtain r0 where
    r0: "initial_result vs = Inr r0" "\<not> detected r0"
      "stats r0 = \<lparr>mean_v = np_mean vs, std_v = np_std vs,
                   min_v = Min (set vs), max_v = Max (set vs)\<rparr>"
    by blast
  have len: "length (sort_by_quality (find_valid_cycles vs)) = length (find_valid_cycles vs)"
    by (simp add: sort_by_quality_def)
  show ?thesis
  proof (cases "sort_by_quality (find_valid_cycles vs)")
    case Nil
    with len have "find_valid_cycles vs = []" by simp
    with r0 Nil show ?thesis
      by (simp add: detect_cycle_in_batch_def enough_samples)
  next
    case (Cons best others)
    with len have "find_valid_cycles vs \<noteq> []" by auto
    with r0 Cons len show ?thesis
      by (simp add: detect_cycle_in_batch_def enough_samples)
  qed
qed

lemma detect_empty: "detect_cycle_in_batch [] = Inl ValueError"
  by (simp add: detect_cycle_in_batch_def initial_result_def)

lemma short_batch_no_cycles:
  "length (find_pulse_clusters vs) < 6 \<Longrightarrow> find_valid_cycles vs = []"
  by (simp add: find_valid_cycles_def Let_def EXPECTED_PULSE_COUNT_def List.map_filter_simps)

lemma noise_no_clusters:
  assumes "\<forall>v\<in>set vs. v \<le> 1 / 10"
  shows "find_pulse_clusters vs = []"
proof -
  have "cluster_loop vs 0 = ([], [], False)"
    by (simp add: cluster_loop_def)
  moreover from assms have "\<forall>i. 0 \<le> i \<and> i < length vs \<longrightarrow> \<not> vs ! i > VOLTAGE_THRESHOLD"
    by (auto simp: VOLTAGE_THRESHOLD_def not_less)
  ultimately have "cluster_loop vs (length vs) = ([], [], False)"
    using loop_low [of vs 0 "[]" "length vs"] by simp
  then show ?thesis by (simp add: find_pulse_clusters_def)
qed


lemma map_filter_start_idx:
  assumes "\<And>i c. f i = Some c \<Longrightarrow> start_idx c = i"
  shows "map start_idx (List.map_filter f is) = filter (\<lambda>i. f i \<noteq> None) is"
  using assms by (induction "is") (auto simp: List.map_filter_simps split: option.splits)

lemma valid_cycles_start_idx:
  "map start_idx (find_valid_cycles vs) =
     filter (\<lambda>i. try_cycle (map (center_time (batch_sps vs)) (find_pulse_clusters vs))
                    (map (cluster_width (batch_sps vs)) (find_pulse_clusters vs))
                    (find_pulse_clusters vs)
                    (map (cluster_voltage vs) (find_pulse_clusters vs)) i \<noteq> None)
       [0..<length (find_pulse_clusters vs) + 1 - EXPECTED_PULSE_COUNT]"
  unfolding find_valid_cycles_def Let_def
  by (subst map_filter_start_idx) (auto dest: try_cycle_Some(4))

lemma valid_windows_start_idx: "map start_idx (find_valid_cycles vs) = valid_windows vs"
  unfolding valid_cycles_start_idx valid_windows_def
  by (simp add: try_cycle_None)

lemma valid_windows_empty: "valid_windows vs = [] \<longleftrightarrow> find_valid_cycles vs = []"
  using valid_windows_start_idx [of vs] by (metis map_is_Nil_conv)


lemma pulse_batch_windows:
  assumes "1 / 10 < v"
  shows "valid_windows (pulse_batch v) = [0]"
  using valid_windows_start_idx [of "pulse_batch v"]
  by (simp add: pulse_valid_cycles [OF assms] pulse_cycle_def)

lemma three_window_windows:
  assumes "1 / 10 < v"
  shows "valid_windows (three_window_batch v) = [0, 1, 2]"
  using valid_windows_start_idx [of "three_window_batch v"]
  by (simp add: three_window_valid_cycles [OF assms] window0_cycle_def window1_cycle_def
      window2_cycle_def flat_cycle_def)



section \<open>Selection of the best cycle\<close>

lemma sort_key_hd:
  assumes "sort_key f xs = b # rest"
  shows "b \<in> set xs" and "\<forall>c\<in>set xs. f b \<le> f c"
    and "hd (filter (\<lambda>y. f y = f b) xs) = b"
proof -
  have "set (sort_key f xs) = set xs" by simp
  with assms show b: "b \<in> set xs" by auto
  have "sorted (map f (sort_key f xs))" by (rule sorted_sort_key)
  with assms have "\<forall>c\<in>set rest. f b \<le> f c" by simp
  moreover have "set xs = insert b (set rest)"
    using assms set_sort [of f xs] by simp
  ultimately show "\<forall>c\<in>set xs. f b \<le> f c" by auto
  have "filter (\<lambda>y. f y = f b) xs = filter (\<lambda>y. f y = f b) (sort_key f xs)"
    by (simp add: sort_key_stable)
  with assms show "hd (filter (\<lambda>y. f y = f b) xs) = b" by simp
qed

lemma sorted_hd_le:
  "sorted (map g ys) \<Longrightarrow> c \<in> set ys \<Longrightarrow> (g (hd ys) :: nat) \<le> g c"
  by (cases ys) auto

lemma best_first:
  assumes "sort_key f xs = b # rest" and "sorted (map g xs)" and "c \<in> set xs" and "f c = f b"
  shows "(g b :: nat) \<le> g c"
proof -
  let ?ys = "filter (\<lambda>y. f y = f b) xs"
  from assms(2) have "sorted (map g ?ys)" by (rule sorted_filter)
  moreover from assms(3,4) have "c \<in> set ?ys" by simp
  ultimately have "g (hd ?ys) \<le> g c" by (rule sorted_hd_le)
  with sort_key_hd(3) [OF assms(1)] show ?thesis by simp
qed

lemma valid_cycles_sorted: "sorted (map start_idx (find_valid_cycles vs))"
  unfolding valid_cycles_start_idx by (rule sorted_filter [where f = "\<lambda>x. x", simplified]) simp

lemma valid_cycles_distinct: "distinct (map start_idx (find_valid_cycles vs))"
  unfolding valid_cycles_start_idx by simp

lemma valid_cycles_unique:
  assumes "c \<in> set (find_valid_cycles vs)" "c' \<in> set (find_valid_cycles vs)"
    and "start_idx c = start_idx c'"
  shows "c = c'"
  using assms valid_cycles_distinct [of vs] by (meson distinct_map inj_onD)


lemma zip_map3:
  "zip (map f1 pd) (zip (map f2 pd) (map f3 pd)) = map (\<lambda>p. (f1 p, f2 p, f3 p)) pd"
  by (induction pd) auto

lemma drop_cluster_column:
  "length a = length b \<Longrightarrow> length b = length c \<Longrightarrow> length c = length d \<Longrightarrow>
   map (\<lambda>p. (fst p, fst (snd p), snd (snd (snd p)))) (zip a (zip b (zip c d))) = zip a (zip b d)"
  by (induction a b c d rule: list_induct4) auto

lemma sorted_triples:
  assumes "length a = length b" "length b = length c" "length c = length d"
    and "pd = sort_key fst (zip a (zip b (zip c d)))"
  shows "mset (zip (map fst pd) (zip (map (\<lambda>p. fst (snd p)) pd) (map (\<lambda>p. snd (snd (snd p))) pd)))
           = mset (zip a (zip b d))"
proof -
  have "mset (zip (map fst pd) (zip (map (\<lambda>p. fst (snd p)) pd) (map (\<lambda>p. snd (snd (snd p))) pd)))
          = mset (map (\<lambda>p. (fst p, fst (snd p), snd (snd (snd p)))) pd)"
    by (simp only: zip_map3)
  also have "\<dots> = image_mset (\<lambda>p. (fst p, fst (snd p), snd (snd (snd p)))) (mset pd)"
    by simp
  also have "mset pd = mset (zip a (zip b (zip c d)))"
    by (simp add: assms(4))
  also have "image_mset (\<lambda>p. (fst p, fst (snd p), snd (snd (snd p)))) (mset (zip a (zip b (zip c d))))
               = mset (map (\<lambda>p. (fst p, fst (snd p), snd (snd (snd p)))) (zip a (zip b (zip c d))))"
    by simp
  also have "\<dots> = mset (zip a (zip b d))"
    by (simp only: drop_cluster_column [OF assms(1-3)])
  finally show ?thesis .
qed

lemma try_cycle_Some_eq:
  assumes "try_cycle pct pw pcl pv start = Some c"
  shows "c = \<lparr>start_idx = start,
              quality = quality_score (cycle_duration_of (window start pct) (window start pw))
                          (np_mean (window start pw)) (np_mean (spacings_of (window start pct)))
                          (np_std (spacings_of (window start pct))),
              pulses = window start pct, widths = window start pw, clusters = window start pcl,
              cycle_voltages = window start pv,
              sorted_pulse_times =
                map fst (sort_key fst (zip (window start pct)
                  (zip (window start pw) (zip (window start pcl) (window start pv))))),
              sorted_pulse_widths =
                map (\<lambda>p. fst (snd p)) (sort_key fst (zip (window start pct)
                  (zip (window start pw) (zip (window start pcl) (window start pv))))),
              sorted_pulse_clusters =
                map (\<lambda>p. fst (snd (snd p))) (sort_key fst (zip (window start pct)
                  (zip (window start pw) (zip (window start pcl) (window start pv))))),
              sorted_pulse_voltages =
                map (\<lambda>p. snd (snd (snd p))) (sort_key fst (zip (window start pct)
                  (zip (window start pw) (zip (window start pcl) (window start pv)))))\<rparr>"
    and "length (window start pct) = 6"
  using assms by (auto simp: try_cycle_def Let_def EXPECTED_PULSE_COUNT_def split: if_splits)

lemma try_cycle_sorted:
  assumes "try_cycle pct pw pcl pv start = Some c"
  shows "sorted (sorted_pulse_times c)"
  by (subst try_cycle_Some_eq(1) [OF assms]) (simp add: sorted_sort_key)

lemma window_map_length: "length (window start (map f xs)) = length (window start xs)"
  by (simp add: window_def)

lemma valid_cycle_shape:
  assumes "c \<in> set (find_valid_cycles vs)"
  shows "length (sorted_pulse_times c) = 6 \<and> length (sorted_pulse_widths c) = 6
         \<and> length (sorted_pulse_clusters c) = 6 \<and> length (sorted_pulse_voltages c) = 6"
    and "mset (zip (sorted_pulse_times c) (zip (sorted_pulse_widths c) (sorted_pulse_voltages c)))
           = mset (zip (pulses c) (zip (widths c) (cycle_voltages c)))"
    and "set (sorted_pulse_voltages c) \<subseteq> cluster_voltage vs ` set (find_pulse_clusters vs)"
    and "sorted (sorted_pulse_times c)"
proof -
  let ?cl = "find_pulse_clusters vs"
  let ?pct = "map (center_time (batch_sps vs)) ?cl"
  let ?pw = "map (cluster_width (batch_sps vs)) ?cl"
  let ?pv = "map (cluster_voltage vs) ?cl"
  from valid_cycle_origin [OF assms] obtain st where
    st: "try_cycle ?pct ?pw ?cl ?pv st = Some c" by blast
  note eq = try_cycle_Some_eq [OF st]
  have l1: "length (window st ?pct) = 6" by (rule eq(2))
  then have l0: "length (window st ?cl) = 6" by (simp add: window_map_length)
  then have l2: "length (window st ?pw) = 6" and l4: "length (window st ?pv) = 6"
    by (simp_all add: window_map_length)
  let ?pd = "sort_key fst (zip (window st ?pct) (zip (window st ?pw)
                (zip (window st ?cl) (window st ?pv))))"
  have lpd: "length ?pd = 6" using l0 l1 l2 l4 by simp
  show "length (sorted_pulse_times c) = 6 \<and> length (sorted_pulse_widths c) = 6
         \<and> length (sorted_pulse_clusters c) = 6 \<and> length (sorted_pulse_voltages c) = 6"
    by (subst (1 2 3 4) eq(1)) (simp add: lpd del: length_sort)
  have "mset (zip (map fst ?pd) (zip (map (\<lambda>p. fst (snd p)) ?pd) (map (\<lambda>p. snd (snd (snd p))) ?pd)))
          = mset (zip (window st ?pct) (zip (window st ?pw) (window st ?pv)))"
    by (rule sorted_triples [where c = "window st ?cl"]) (simp_all add: l0 l1 l2 l4)
  then show "mset (zip (sorted_pulse_times c) (zip (sorted_pulse_widths c) (sorted_pulse_voltages c)))
           = mset (zip (pulses c) (zip (widths c) (cycle_voltages c)))"
    by (subst (1 2 3 4 5 6) eq(1)) simp
  have "set (map (\<lambda>p. snd (snd (snd p))) ?pd) \<subseteq> set (window st ?pv)"
    by (auto dest!: set_zip_rightD)
  also have "\<dots> \<subseteq> set ?pv"
    unfolding window_def
    by (rule subset_trans [OF set_take_subset set_drop_subset])
  finally show "set (sorted_pulse_voltages c) \<subseteq> cluster_voltage vs ` set (find_pulse_clusters vs)"
    by (subst eq(1)) simp
  show "sorted (sorted_pulse_times c)" by (rule try_cycle_sorted [OF st])
qed


lemma detect_detected:
  assumes "detect_cycle_in_batch vs = Inr r" and "detected r"
  shows "\<exists>best others. sort_by_quality (find_valid_cycles vs) = best # others
           \<and> quality_r r = quality best \<and> score r = quality best
           \<and> sorted_pulse_times_r r = Some (sorted_pulse_times best)
           \<and> sorted_pulse_widths_r r = Some (sorted_pulse_widths best)
           \<and> sorted_pulse_clusters_r r = Some (sorted_pulse_clusters best)
           \<and> sorted_pulse_voltages_r r = Some (sorted_pulse_voltages best)
           \<and> all_valid_cycles r = Some (best # others)
           \<and> total_valid_cycles r = Some (length (best # others))"
proof -
  from assms(1) have ne: "vs \<noteq> []"
    by (auto simp: detect_empty)
  from initial_result_nonempty [OF ne] obtain r0 where
    r0: "initial_result vs = Inr r0" "\<not> detected r0" by blast
  show ?thesis
  proof (cases "sort_by_quality (find_valid_cycles vs)")
    case Nil
    with r0 assms show ?thesis
      by (simp add: detect_cycle_in_batch_def enough_samples)
  next
    case (Cons best others)
    with r0 assms(1) show ?thesis
      by (auto simp: detect_cycle_in_batch_def enough_samples)
  qed
qed

text \<open>
  Claim C9. When a batch is reported as detected, the result's quality, score and four
  sorted pulse lists are those of one valid cycle \<open>best\<close>: no valid cycle has a higher
  quality, among those of equal quality none starts at a smaller offset, and no other
  valid cycle shares its offset. Its pulse times are in ascending order, there are six
  of them, and its (time, width, voltage) triples are the triples of its window of
  clusters, rearranged.
\<close>

theorem best_cycle_promoted:
  assumes "detect_cycle_in_batch vs = Inr r" and "detected r"
  shows "\<exists>best\<in>set (find_valid_cycles vs).
           (\<forall>c\<in>set (find_valid_cycles vs).
               quality c \<le> quality best
               \<and> (quality c = quality best \<longrightarrow> start_idx best \<le> start_idx c)
               \<and> (start_idx c = start_idx best \<longrightarrow> c = best))
           \<and> quality_r r = quality best \<and> score r = quality best
           \<and> sorted_pulse_times_r r = Some (sorted_pulse_times best)
           \<and> sorted_pulse_widths_r r = Some (sorted_pulse_widths best)
           \<and> sorted_pulse_clusters_r r = Some (sorted_pulse_clusters best)
           \<and> sorted_pulse_voltages_r r = Some (sorted_pulse_voltages best)
           \<and> sorted (sorted_pulse_times best)
           \<and> length (sorted_pulse_times best) = 6
           \<and> mset (zip (sorted_pulse_times best)
                      (zip (sorted_pulse_widths best) (sorted_pulse_voltages best)))
               = mset (zip (pulses best) (zip (widths best) (cycle_voltages best)))"
proof -
  let ?valid = "find_valid_cycles vs"
  from detect_detected [OF assms] obtain best others where
    srt: "sort_key (\<lambda>x. - quality x) ?valid = best # others"
    and fields: "quality_r r = quality best" "score r = quality best"
      "sorted_pulse_times_r r = Some (sorted_pulse_times best)"
      "sorted_pulse_widths_r r = Some (sorted_pulse_widths best)"
      "sorted_pulse_clusters_r r = Some (sorted_pulse_clusters best)"
      "sorted_pulse_voltages_r r = Some (sorted_pulse_voltages best)"
    unfolding sort_by_quality_def by blast
  from sort_key_hd(1) [OF srt] have mem: "best \<in> set ?valid" .
  have top: "\<forall>c\<in>set ?valid. quality c \<le> quality best"
    using sort_key_hd(2) [OF srt] by simp
  have tie: "\<forall>c\<in>set ?valid. quality c = quality best \<longrightarrow> start_idx best \<le> start_idx c"
    using best_first [OF srt valid_cycles_sorted] by simp
  have uniq: "\<forall>c\<in>set ?valid. start_idx c = start_idx best \<longrightarrow> c = best"
    using valid_cycles_unique [OF _ mem] by blast
  from valid_cycle_shape [OF mem] top tie uniq fields mem show ?thesis
    by blast
qed

theorem best_cycle_promoted_witness:
  "\<exists>r. detect_cycle_in_batch (three_window_batch (3 / 10)) = Inr r \<and> detected r
        \<and> total_valid_cycles r = Some 3
        \<and> quality_r r = 8803 / 9000
        \<and> sorted_pulse_times_r r = Some [9 / 8, 15 / 8, 21 / 8, 27 / 8, 33 / 8, 39 / 8]
        \<and> sorted_pulse_clusters_r r
            = Some [[4, 5], [7, 8], [10, 11], [13, 14], [16, 17], [19, 20]]
        \<and> sorted_pulse_voltages_r r = Some [3 / 10, 3 / 10, 3 / 10, 3 / 10, 3 / 10, 3 / 10]"
proof -
  let ?b = "three_window_batch (3 / 10)"
  let ?w0 = "window0_cycle (3 / 10)" and ?w1 = "window1_cycle (3 / 10)"
  let ?w2 = "window2_cycle (3 / 10)"
  have valid: "find_valid_cycles ?b = [?w0, ?w1, ?w2]"
    by (simp add: three_window_valid_cycles)
  have "?b \<noteq> []"
    by (simp add: three_window_batch_def)
  from detect_nonempty [OF this] valid obtain r where
    r: "detect_cycle_in_batch ?b = Inr r" "detected r" "total_valid_cycles r = Some 3"
    by auto
  from best_cycle_promoted [OF r(1,2)] obtain best where
    mem: "best \<in> set (find_valid_cycles ?b)"
    and top: "\<forall>c\<in>set (find_valid_cycles ?b). quality c \<le> quality best
               \<and> (quality c = quality best \<longrightarrow> start_idx best \<le> start_idx c)"
    and fields: "quality_r r = quality best"
      "sorted_pulse_times_r r = Some (sorted_pulse_times best)"
      "sorted_pulse_clusters_r r = Some (sorted_pulse_clusters best)"
      "sorted_pulse_voltages_r r = Some (sorted_pulse_voltages best)"
    by blast
  from top have t1: "quality ?w1 \<le> quality best"
    and t2: "quality ?w1 = quality best \<longrightarrow> start_idx best \<le> start_idx ?w1"
    by (simp_all add: valid)
  from mem have "best = ?w0 \<or> best = ?w1 \<or> best = ?w2"
    by (simp add: valid)
  then have "best = ?w1"
  proof (elim disjE)
    assume "best = ?w0"
    with t1 show ?thesis
      by (simp add: window0_cycle_def window1_cycle_def flat_cycle_def)
  next
    assume "best = ?w1"
    then show ?thesis .
  next
    assume "best = ?w2"
    with t2 show ?thesis
      by (simp add: window1_cycle_def window2_cycle_def flat_cycle_def)
  qed
  with fields r show ?thesis
    by (simp add: window1_cycle_def flat_cycle_def)
qed

section \<open>What one batch does to the window\<close>

lemma length6:
  "length xs = 6 \<Longrightarrow> \<exists>a b c d e f. xs = [a, b, c, d, e, f]"
  by (auto simp: eval_nat_numeral length_Suc_conv)

lemma channel0_gain_sample_buffer [simp]:
  "channel0_gain (s\<lparr>sample_buffer := f\<rparr>) = channel0_gain s"
  by (simp add: channel0_gain_def)

lemma assign_cycle:
  assumes "length ts = 6" "length cs = 6" "length vs = 6"
  shows "fold assign_pulse (enumerate 0 (zip ts (zip cs vs))) s =
           s\<lparr>sample_buffer :=
               (\<lambda>w. sample_buffer s w @ [vs ! wl_index w / real_of_int (channel0_gain s)])\<rparr>"
proof -
  from length6 [OF assms(1)] obtain t0 t1 t2 t3 t4 t5 where ts: "ts = [t0, t1, t2, t3, t4, t5]"
    by blast
  from length6 [OF assms(2)] obtain c0 c1 c2 c3 c4 c5 where cs: "cs = [c0, c1, c2, c3, c4, c5]"
    by blast
  from length6 [OF assms(3)] obtain v0 v1 v2 v3 v4 v5 where vs: "vs = [v0, v1, v2, v3, v4, v5]"
    by blast
  have fn: "(\<lambda>w. sample_buffer s w @ [[v0, v1, v2, v3, v4, v5] ! wl_index w
                 / real_of_int (channel0_gain s)])
      = (sample_buffer s)
          (nm700 := sample_buffer s nm700 @ [v0 / real_of_int (channel0_gain s)],
           nm800 := sample_buffer s nm800 @ [v1 / real_of_int (channel0_gain s)],
           nm850 := sample_buffer s nm850 @ [v2 / real_of_int (channel0_gain s)],
           nm900 := sample_buffer s nm900 @ [v3 / real_of_int (channel0_gain s)],
           nm970 := sample_buffer s nm970 @ [v4 / real_of_int (channel0_gain s)],
           nm1050 := sample_buffer s nm1050 @ [v5 / real_of_int (channel0_gain s)])"
  proof
    fix w
    show "sample_buffer s w @ [[v0, v1, v2, v3, v4, v5] ! wl_index w / real_of_int (channel0_gain s)]
      = ((sample_buffer s)
          (nm700 := sample_buffer s nm700 @ [v0 / real_of_int (channel0_gain s)],
           nm800 := sample_buffer s nm800 @ [v1 / real_of_int (channel0_gain s)],
           nm850 := sample_buffer s nm850 @ [v2 / real_of_int (channel0_gain s)],
           nm900 := sample_buffer s nm900 @ [v3 / real_of_int (channel0_gain s)],
           nm970 := sample_buffer s nm970 @ [v4 / real_of_int (channel0_gain s)],
           nm1050 := sample_buffer s nm1050 @ [v5 / real_of_int (channel0_gain s)])) w"
      by (cases w) simp_all
  qed
  show ?thesis
    unfolding ts cs vs fn
    by (simp add: enumerate_eq_zip wavelengths_def Let_def upt_rec)
qed


lemma auto_adjust_gain_frame:
  "sample_buffer (auto_adjust_gain spi_ok s ch vb lo hi) = sample_buffer s"
  "consecutive_cycles (auto_adjust_gain spi_ok s ch vb lo hi) = consecutive_cycles s"
  "is_locked (auto_adjust_gain spi_ok s ch vb lo hi) = is_locked s"
  "no_pattern_timer (auto_adjust_gain spi_ok s ch vb lo hi) = no_pattern_timer s"
  "pattern_detection_active (auto_adjust_gain spi_ok s ch vb lo hi) = pattern_detection_active s"
  "status_label_shown (auto_adjust_gain spi_ok s ch vb lo hi) = status_label_shown s"
  by (simp_all add: auto_adjust_gain_def try_set_gain_def Let_def
      split: option.splits adc_dev.splits sum.splits)

lemma adjust_converter_eq:
  "adc (auto_adjust_gain spi_ok s 0 vb (1 / 10) 1) = adjust_converter spi_ok vb (adc s)"
  by (simp add: adjust_converter_def auto_adjust_gain_def try_set_gain_def init_window_def Let_def
      split: option.splits adc_dev.splits sum.splits)

lemma adjust_converter_Some: "dev \<noteq> None \<Longrightarrow> adjust_converter spi_ok vb dev \<noteq> None"
  by (auto simp: adjust_converter_def auto_adjust_gain_def try_set_gain_def init_window_def Let_def
      split: option.splits adc_dev.splits sum.splits)

lemma gain_calls_Some: "dev \<noteq> None \<Longrightarrow> gain_calls spi_ok vb cs dev \<noteq> None"
  unfolding gain_calls_def
proof (induction cs arbitrary: dev)
  case Nil
  then show ?case by simp
next
  case (Cons c cs)
  show ?case
  proof (cases "cycle_triggers_gain c")
    case True
    with Cons.IH [OF adjust_converter_Some [OF Cons.prems]] show ?thesis by simp
  next
    case False
    with Cons.IH [OF Cons.prems] show ?thesis by simp
  qed
qed

lemma gain_calls_idle:
  "\<forall>c\<in>set cs. \<not> cycle_triggers_gain c \<Longrightarrow> gain_calls spi_ok vb cs dev = dev"
  unfolding gain_calls_def
  by (induction cs arbitrary: dev) simp_all

lemma assign_pulse_frame:
  "adc (assign_pulse p s) = adc s"
  "continuous_sample_buffer (assign_pulse p s) = continuous_sample_buffer s"
  "consecutive_cycles (assign_pulse p s) = consecutive_cycles s"
  "is_locked (assign_pulse p s) = is_locked s"
  "no_pattern_timer (assign_pulse p s) = no_pattern_timer s"
  "pattern_detection_active (assign_pulse p s) = pattern_detection_active s"
  "status_label_shown (assign_pulse p s) = status_label_shown s"
  by (cases p; simp add: Let_def)+

lemma fold_assign_frame:
  "adc (fold assign_pulse ps s) = adc s"
  "continuous_sample_buffer (fold assign_pulse ps s) = continuous_sample_buffer s"
  "consecutive_cycles (fold assign_pulse ps s) = consecutive_cycles s"
  "is_locked (fold assign_pulse ps s) = is_locked s"
  "no_pattern_timer (fold assign_pulse ps s) = no_pattern_timer s"
  "pattern_detection_active (fold assign_pulse ps s) = pattern_detection_active s"
  "status_label_shown (fold assign_pulse ps s) = status_label_shown s"
  by (induction ps arbitrary: s; simp add: assign_pulse_frame)+

lemma process_cycle_frame:
  "consecutive_cycles (process_cycle spi_ok bv c s) = consecutive_cycles s"
  "is_locked (process_cycle spi_ok bv c s) = is_locked s"
  "no_pattern_timer (process_cycle spi_ok bv c s) = no_pattern_timer s"
  "pattern_detection_active (process_cycle spi_ok bv c s) = pattern_detection_active s"
  "status_label_shown (process_cycle spi_ok bv c s) = status_label_shown s"
  by (simp_all add: process_cycle_def Let_def auto_adjust_gain_frame fold_assign_frame)

lemma process_cycle_adc:
  "adc (process_cycle spi_ok bv c s) =
     (if cycle_triggers_gain c then adjust_converter spi_ok bv (adc s) else adc s)"
  by (simp add: process_cycle_def cycle_triggers_gain_def Let_def adjust_converter_eq
      fold_assign_frame)

lemma process_cycle_continuous:
  "\<not> cycle_triggers_gain c \<Longrightarrow>
   continuous_sample_buffer (process_cycle spi_ok bv c s) = continuous_sample_buffer s"
  by (auto simp: process_cycle_def cycle_triggers_gain_def Let_def fold_assign_frame)

lemma process_cycle_history:
  assumes "length (sorted_pulse_times c) = 6" "length (sorted_pulse_clusters c) = 6"
    "length (sorted_pulse_voltages c) = 6"
  shows "sample_buffer (process_cycle spi_ok bv c s) =
           (\<lambda>w. sample_buffer s w
                  @ [sorted_pulse_voltages c ! wl_index w / real_of_int (channel0_gain s)])"
  by (simp add: process_cycle_def assms assign_cycle [OF assms] Let_def auto_adjust_gain_frame)

lemma fold_nth_take:
  "m \<le> length cs \<Longrightarrow> fold (\<lambda>i. f (cs ! i)) [0..<m] s = fold f (take m cs) s"
proof (induction m)
  case 0
  show ?case by simp
next
  case (Suc m)
  then have "take (Suc m) cs = take m cs @ [cs ! m]"
    by (simp add: take_Suc_conv_app_nth)
  with Suc show ?case by simp
qed

lemma process_cycles_frame:
  "consecutive_cycles (fold (process_cycle spi_ok bv) cs s) = consecutive_cycles s"
  "is_locked (fold (process_cycle spi_ok bv) cs s) = is_locked s"
  "no_pattern_timer (fold (process_cycle spi_ok bv) cs s) = no_pattern_timer s"
  "pattern_detection_active (fold (process_cycle spi_ok bv) cs s) = pattern_detection_active s"
  "status_label_shown (fold (process_cycle spi_ok bv) cs s) = status_label_shown s"
  by (induction cs arbitrary: s; simp add: process_cycle_frame)+

lemma process_cycles_adc:
  "adc (fold (process_cycle spi_ok bv) cs s) = gain_calls spi_ok bv cs (adc s)"
  unfolding gain_calls_def
  by (induction cs arbitrary: s) (simp_all add: process_cycle_adc)

lemma process_cycles_continuous:
  "\<forall>c\<in>set cs. \<not> cycle_triggers_gain c \<Longrightarrow>
   continuous_sample_buffer (fold (process_cycle spi_ok bv) cs s) = continuous_sample_buffer s"
  by (induction cs arbitrary: s) (simp_all add: process_cycle_continuous)

lemma process_cycles_history:
  assumes "\<forall>c\<in>set cs. length (sorted_pulse_times c) = 6 \<and> length (sorted_pulse_clusters c) = 6
             \<and> length (sorted_pulse_voltages c) = 6"
  shows "\<exists>new. sample_buffer (fold (process_cycle spi_ok bv) cs s) w = sample_buffer s w @ new
           \<and> length new = length cs"
  using assms
proof (induction cs arbitrary: s)
  case Nil
  show ?case by simp
next
  case (Cons c cs)
  then have len: "length (sorted_pulse_times c) = 6" "length (sorted_pulse_clusters c) = 6"
    "length (sorted_pulse_voltages c) = 6"
    by simp_all
  from Cons obtain new where
    "sample_buffer (fold (process_cycle spi_ok bv) cs (process_cycle spi_ok bv c s)) w
       = sample_buffer (process_cycle spi_ok bv c s) w @ new" "length new = length cs"
    by fastforce
  then show ?case
    by (simp add: process_cycle_history [OF len])
qed

lemma sample_data_step:
  assumes "adc s \<noteq> None" and "detect_cycle_in_batch (map snd batch) = Inr r"
  shows "sample_data spi_ok batch now s =
           Inr (if detected r
                then on_detected spi_ok (map snd batch) now r (after_bookkeeping (map snd batch) s)
                else on_not_detected spi_ok (map snd batch) (after_bookkeeping (map snd batch) s))"
proof -
  from assms(2) have "map snd batch \<noteq> []"
    by (auto simp: detect_empty)
  moreover from assms(1) obtain dev where "adc s = Some dev"
    by auto
  ultimately show ?thesis
    using assms(2) by (simp add: sample_data_def after_bookkeeping_def Let_def)
qed

lemma on_not_detected_mid:
  "\<exists>mid. on_not_detected spi_ok bv s = auto_adjust_gain spi_ok mid 0 bv (1 / 10) 1
         \<and> adc mid = adc s
         \<and> continuous_sample_buffer mid = continuous_sample_buffer s
         \<and> sample_buffer mid = sample_buffer s"
proof (cases "pattern_detection_active s")
  case True
  then have "on_not_detected spi_ok bv s =
      auto_adjust_gain spi_ok (s\<lparr>consecutive_cycles := 0, is_locked := False\<rparr>) 0 bv (1 / 10) 1"
    by (simp add: on_not_detected_def Let_def)
  then show ?thesis
    by (intro exI [of _ "s\<lparr>consecutive_cycles := 0, is_locked := False\<rparr>"]) simp
next
  case False
  then have "on_not_detected spi_ok bv s =
      auto_adjust_gain spi_ok
        (s\<lparr>consecutive_cycles := 0, is_locked := False, no_pattern_timer := Some 3000,
            pattern_detection_active := True\<rparr>) 0 bv (1 / 10) 1"
    by (simp add: on_not_detected_def Let_def)
  then show ?thesis
    by (intro exI [of _ "s\<lparr>consecutive_cycles := 0, is_locked := False,
          no_pattern_timer := Some 3000, pattern_detection_active := True\<rparr>"]) simp
qed

lemma on_detected_fields:
  assumes "all_valid_cycles r = Some cs" "total_valid_cycles r = Some (length cs)"
  shows "adc (on_detected spi_ok bv now r s) = gain_calls spi_ok bv (take 3 cs) (adc s)"
    and "consecutive_cycles (on_detected spi_ok bv now r s) = consecutive_cycles s + 1"
    and "is_locked (on_detected spi_ok bv now r s)
           \<longleftrightarrow> is_locked s \<or> LOCK_THRESHOLD \<le> consecutive_cycles s + 1"
    and "no_pattern_timer (on_detected spi_ok bv now r s) = None"
    and "\<not> pattern_detection_active (on_detected spi_ok bv now r s)"
    and "\<not> status_label_shown (on_detected spi_ok bv now r s)"
proof -
  have m: "min 3 (length cs) \<le> length cs" by simp
  have tk: "take (min 3 (length cs)) cs = take 3 cs" by (simp add: min_def)
  note fold = fold_nth_take [OF m, of "process_cycle spi_ok bv", unfolded tk]
  show "adc (on_detected spi_ok bv now r s) = gain_calls spi_ok bv (take 3 cs) (adc s)"
    and "consecutive_cycles (on_detected spi_ok bv now r s) = consecutive_cycles s + 1"
    and "is_locked (on_detected spi_ok bv now r s)
           \<longleftrightarrow> is_locked s \<or> LOCK_THRESHOLD \<le> consecutive_cycles s + 1"
    and "no_pattern_timer (on_detected spi_ok bv now r s) = None"
    and "\<not> pattern_detection_active (on_detected spi_ok bv now r s)"
    and "\<not> status_label_shown (on_detected spi_ok bv now r s)"
    by (simp_all add: on_detected_def assms fold Let_def process_cycles_frame process_cycles_adc)
qed

lemma on_detected_continuous:
  assumes "all_valid_cycles r = Some cs" "total_valid_cycles r = Some (length cs)"
    and "\<forall>c\<in>set (take 3 cs). \<not> cycle_triggers_gain c"
  shows "continuous_sample_buffer (on_detected spi_ok bv now r s) = continuous_sample_buffer s"
proof -
  have m: "min 3 (length cs) \<le> length cs" by simp
  have tk: "take (min 3 (length cs)) cs = take 3 cs" by (simp add: min_def)
  note fold = fold_nth_take [OF m, of "process_cycle spi_ok bv", unfolded tk]
  show ?thesis
    by (simp add: on_detected_def assms(1,2) fold Let_def process_cycles_continuous [OF assms(3)])
qed

lemma on_detected_history:
  assumes "all_valid_cycles r = Some cs" "total_valid_cycles r = Some (length cs)"
    and "\<forall>c\<in>set cs. length (sorted_pulse_times c) = 6 \<and> length (sorted_pulse_clusters c) = 6
           \<and> length (sorted_pulse_voltages c) = 6"
  shows "\<exists>new. sample_buffer (on_detected spi_ok bv now r s) w = sample_buffer s w @ new
           \<and> length new = min 3 (length cs)"
proof -
  have m: "min 3 (length cs) \<le> length cs" by simp
  have tk: "take (min 3 (length cs)) cs = take 3 cs" by (simp add: min_def)
  note fold = fold_nth_take [OF m, of "process_cycle spi_ok bv", unfolded tk]
  from assms(3) have "\<forall>c\<in>set (take 3 cs). length (sorted_pulse_times c) = 6
      \<and> length (sorted_pulse_clusters c) = 6 \<and> length (sorted_pulse_voltages c) = 6"
    by (meson in_set_takeD)
  from process_cycles_history [OF this, of spi_ok bv
      "s\<lparr>cycle_detected_count := cycle_detected_count s + 1,
         total_cycles_detected := total_cycles_detected s + 1,
         no_pattern_timer := None, pattern_detection_active := False\<rparr>" w]
  obtain new where new:
    "sample_buffer (fold (process_cycle spi_ok bv) (take 3 cs)
       (s\<lparr>cycle_detected_count := cycle_detected_count s + 1,
          total_cycles_detected := total_cycles_detected s + 1,
          no_pattern_timer := None, pattern_detection_active := False\<rparr>)) w
       = sample_buffer s w @ new" "length new = length (take 3 cs)"
    by auto
  have "sample_buffer (on_detected spi_ok bv now r s) w
      = sample_buffer (fold (process_cycle spi_ok bv) (take 3 cs)
          (s\<lparr>cycle_detected_count := cycle_detected_count s + 1,
             total_cycles_detected := total_cycles_detected s + 1,
             no_pattern_timer := None, pattern_detection_active := False\<rparr>)) w"
    by (simp add: on_detected_def assms(1,2) fold Let_def)
  with new have "sample_buffer (on_detected spi_ok bv now r s) w = sample_buffer s w @ new"
    "length new = min 3 (length cs)"
    by (simp_all add: min.commute)
  then show ?thesis by blast
qed

lemma sample_data_detected:
  assumes "adc s \<noteq> None" and "detect_cycle_in_batch (map snd batch) = Inr r" and "detected r"
  shows "\<exists>s'. sample_data spi_ok batch now s = Inr s'
           \<and> adc s' = gain_calls spi_ok (map snd batch) (processed_cycles (map snd batch)) (adc s)
           \<and> adc s' \<noteq> None
           \<and> consecutive_cycles s' = consecutive_cycles s + 1
           \<and> (is_locked s' \<longleftrightarrow> is_locked s \<or> LOCK_THRESHOLD \<le> consecutive_cycles s + 1)
           \<and> no_pattern_timer s' = None
           \<and> \<not> pattern_detection_active s'
           \<and> \<not> status_label_shown s'"
proof -
  let ?vs = "map snd batch"
  from detect_detected [OF assms(2,3)] obtain best others where
    srt: "sort_by_quality (find_valid_cycles ?vs) = best # others"
    and r: "all_valid_cycles r = Some (best # others)"
      "total_valid_cycles r = Some (length (best # others))"
    by blast
  note f = on_detected_fields [OF r, of spi_ok ?vs now "after_bookkeeping ?vs s"]
  have a: "adc (after_bookkeeping ?vs s) = adc s"
    by (simp add: after_bookkeeping_def)
  have "gain_calls spi_ok ?vs (processed_cycles ?vs) (adc s) \<noteq> None"
    by (rule gain_calls_Some [OF assms(1)])
  then show ?thesis
    unfolding sample_data_step [OF assms(1,2)]
    using f assms(3)
    by (simp add: processed_cycles_def srt a) (simp add: after_bookkeeping_def)
qed

lemma sample_data_detected_continuous:
  assumes "adc s \<noteq> None" and "detect_cycle_in_batch (map snd batch) = Inr r" and "detected r"
    and "\<forall>c\<in>set (processed_cycles (map snd batch)). \<not> cycle_triggers_gain c"
  shows "\<exists>s'. sample_data spi_ok batch now s = Inr s'
           \<and> adc s' = adc s
           \<and> continuous_sample_buffer s'
               = continuous_sample_buffer (after_bookkeeping (map snd batch) s)"
proof -
  let ?vs = "map snd batch"
  from detect_detected [OF assms(2,3)] obtain best others where
    srt: "sort_by_quality (find_valid_cycles ?vs) = best # others"
    and r: "all_valid_cycles r = Some (best # others)"
      "total_valid_cycles r = Some (length (best # others))"
    by blast
  from assms(4) have idle: "\<forall>c\<in>set (take 3 (best # others)). \<not> cycle_triggers_gain c"
    by (simp add: processed_cycles_def srt)
  note f = on_detected_fields(1) [OF r, of spi_ok ?vs now "after_bookkeeping ?vs s"]
    on_detected_continuous [OF r idle, of spi_ok ?vs now "after_bookkeeping ?vs s"]
  have a: "adc (after_bookkeeping ?vs s) = adc s"
    by (simp add: after_bookkeeping_def)
  have "adc (on_detected spi_ok ?vs now r (after_bookkeeping ?vs s)) = adc s"
    unfolding f(1) gain_calls_idle [OF idle] by (rule a)
  with f(2) show ?thesis
    unfolding sample_data_step [OF assms(1,2)]
    using assms(3) by simp
qed

lemma sample_data_detected_history:
  assumes "adc s \<noteq> None" and "detect_cycle_in_batch (map snd batch) = Inr r" and "detected r"
  shows "\<exists>s' new. sample_data spi_ok batch now s = Inr s'
           \<and> sample_buffer s' w = sample_buffer s w @ new
           \<and> length new = min 3 (length (valid_windows (map snd batch)))"
proof -
  let ?vs = "map snd batch"
  from detect_detected [OF assms(2,3)] obtain best others where
    srt: "sort_by_quality (find_valid_cycles ?vs) = best # others"
    and r: "all_valid_cycles r = Some (best # others)"
      "total_valid_cycles r = Some (length (best # others))"
    by blast
  have "set (best # others) = set (find_valid_cycles ?vs)"
    using srt [symmetric] by (simp add: sort_by_quality_def)
  then have shape: "\<forall>c\<in>set (best # others). length (sorted_pulse_times c) = 6
      \<and> length (sorted_pulse_clusters c) = 6 \<and> length (sorted_pulse_voltages c) = 6"
    using valid_cycle_shape(1) [of _ ?vs] by blast
  have "length (best # others) = length (find_valid_cycles ?vs)"
    using srt [symmetric] by (simp add: sort_by_quality_def)
  also have "\<dots> = length (valid_windows ?vs)"
    using valid_windows_start_idx [of ?vs, symmetric] by simp
  finally have len: "length (best # others) = length (valid_windows ?vs)" .
  from on_detected_history [OF r shape, of spi_ok ?vs now "after_bookkeeping ?vs s" w]
  obtain new where
    "sample_buffer (on_detected spi_ok ?vs now r (after_bookkeeping ?vs s)) w
       = sample_buffer (after_bookkeeping ?vs s) w @ new"
    "length new = min 3 (length (best # others))"
    by blast
  then show ?thesis
    unfolding sample_data_step [OF assms(1,2)]
    using assms(3) len by (simp add: after_bookkeeping_def)
qed

lemma sample_data_not_detected:
  assumes "adc s \<noteq> None" and "detect_cycle_in_batch (map snd batch) = Inr r"
    and "\<not> detected r"
  shows "\<exists>s'. sample_data spi_ok batch now s = Inr s'
           \<and> sample_buffer s' = sample_buffer s
           \<and> consecutive_cycles s' = 0 \<and> \<not> is_locked s'
           \<and> no_pattern_timer s'
               = (if pattern_detection_active s then no_pattern_timer s else Some 3000)
           \<and> pattern_detection_active s'
           \<and> status_label_shown s' = status_label_shown s"
  unfolding sample_data_step [OF assms(1,2)]
  using assms(3)
  by (simp add: on_not_detected_def Let_def auto_adjust_gain_frame)
     (simp add: after_bookkeeping_def)

lemma sample_data_not_detected_gain:
  assumes "adc s \<noteq> None" and "detect_cycle_in_batch (map snd batch) = Inr r"
    and "\<not> detected r"
  shows "\<exists>mid. sample_data spi_ok batch now s
                 = Inr (auto_adjust_gain spi_ok mid 0 (map snd batch) (1 / 10) 1)
           \<and> adc mid = adc s
           \<and> continuous_sample_buffer mid
               = continuous_sample_buffer (after_bookkeeping (map snd batch) s)
           \<and> sample_buffer mid = sample_buffer s"
proof -
  from on_not_detected_mid [of spi_ok "map snd batch" "after_bookkeeping (map snd batch) s"]
  obtain mid where
    "on_not_detected spi_ok (map snd batch) (after_bookkeeping (map snd batch) s)
       = auto_adjust_gain spi_ok mid 0 (map snd batch) (1 / 10) 1"
    "adc mid = adc (after_bookkeeping (map snd batch) s)"
    "continuous_sample_buffer mid = continuous_sample_buffer (after_bookkeeping (map snd batch) s)"
    "sample_buffer mid = sample_buffer (after_bookkeeping (map snd batch) s)"
    by blast
  then show ?thesis
    unfolding sample_data_step [OF assms(1,2)]
    using assms(3) by (intro exI [of _ mid]) (simp add: after_bookkeeping_def)
qed

lemma snd_stamp [simp]: "map snd (stamp vs) = vs"
  by (simp add: stamp_def comp_def)

lemma pulse_batch_detected:
  assumes "1 / 10 < v"
  shows "\<exists>r. detect_cycle_in_batch (pulse_batch v) = Inr r \<and> detected r"
proof -
  have "pulse_batch v \<noteq> []" by (simp add: pulse_batch_def)
  from detect_nonempty [OF this] pulse_valid_cycles [OF assms] show ?thesis
    by auto
qed

lemma noise_not_detected:
  "\<exists>r. detect_cycle_in_batch [1 / 20] = Inr r \<and> \<not> detected r"
proof -
  have "[1 / 20 :: real] \<noteq> []" by simp
  from detect_nonempty [OF this] obtain r where
    r: "detect_cycle_in_batch [1 / 20] = Inr r" "detected r \<longleftrightarrow> find_valid_cycles [1 / 20] \<noteq> []"
    by blast
  have "find_pulse_clusters [1 / 20 :: real] = []"
    by (rule noise_no_clusters) simp
  then have "find_valid_cycles [1 / 20] = []"
    by (simp add: short_batch_no_cycles)
  with r show ?thesis by blast
qed


section \<open>Lock state\<close>

text \<open>
  Claim C5. With a converter present, from the unlocked state with the counter at 0, a
  first batch with a detection leaves the window unlocked with the counter at 1 and a
  second one locks it with the counter at 2; and from any state a batch without a
  detection leaves the counter at 0 and the window unlocked.
\<close>

theorem lock_after_two_detections:
  "(adc s \<noteq> None \<and> consecutive_cycles s = 0 \<and> \<not> is_locked s
      \<and> detect_cycle_in_batch (map snd b1) = Inr r1 \<and> detected r1
      \<and> detect_cycle_in_batch (map snd b2) = Inr r2 \<and> detected r2
    \<longrightarrow> (\<exists>s1 s2. sample_data ok1 b1 t1 s = Inr s1
           \<and> consecutive_cycles s1 = 1 \<and> \<not> is_locked s1
           \<and> sample_data ok2 b2 t2 s1 = Inr s2
           \<and> consecutive_cycles s2 = 2 \<and> is_locked s2))
   \<and> (adc u \<noteq> None \<and> detect_cycle_in_batch (map snd b3) = Inr r3 \<and> \<not> detected r3
    \<longrightarrow> (\<exists>u'. sample_data ok3 b3 t3 u = Inr u'
           \<and> consecutive_cycles u' = 0 \<and> \<not> is_locked u'))"
proof (intro conjI impI)
  assume a: "adc s \<noteq> None \<and> consecutive_cycles s = 0 \<and> \<not> is_locked s
      \<and> detect_cycle_in_batch (map snd b1) = Inr r1 \<and> detected r1
      \<and> detect_cycle_in_batch (map snd b2) = Inr r2 \<and> detected r2"
  then have dev: "adc s \<noteq> None" and d1: "detect_cycle_in_batch (map snd b1) = Inr r1" "detected r1"
    and d2: "detect_cycle_in_batch (map snd b2) = Inr r2" "detected r2"
    by simp_all
  from sample_data_detected [OF dev d1, of ok1 t1] a obtain s1 where
    s1: "sample_data ok1 b1 t1 s = Inr s1" "adc s1 \<noteq> None" "consecutive_cycles s1 = 1"
      "\<not> is_locked s1"
    by (auto simp: LOCK_THRESHOLD_def)
  note dev1 = s1(2)
  from sample_data_detected [OF dev1 d2, of ok2 t2] s1(3) obtain s2 where
    "sample_data ok2 b2 t2 s1 = Inr s2" "consecutive_cycles s2 = 2" "is_locked s2"
    by (auto simp: LOCK_THRESHOLD_def)
  with s1 show "\<exists>s1 s2. sample_data ok1 b1 t1 s = Inr s1
           \<and> consecutive_cycles s1 = 1 \<and> \<not> is_locked s1
           \<and> sample_data ok2 b2 t2 s1 = Inr s2
           \<and> consecutive_cycles s2 = 2 \<and> is_locked s2"
    by blast
next
  assume "adc u \<noteq> None \<and> detect_cycle_in_batch (map snd b3) = Inr r3 \<and> \<not> detected r3"
  then have "adc u \<noteq> None" "detect_cycle_in_batch (map snd b3) = Inr r3" "\<not> detected r3"
    by simp_all
  from sample_data_not_detected [OF this, of ok3 t3]
  show "\<exists>u'. sample_data ok3 b3 t3 u = Inr u' \<and> consecutive_cycles u' = 0 \<and> \<not> is_locked u'"
    by blast
qed

theorem lock_after_two_detections_witness:
  "(\<exists>s1 s2. sample_data True (stamp (pulse_batch (3 / 10))) 0 (init_window (Some ADS7142)) = Inr s1
        \<and> \<not> is_locked s1
        \<and> sample_data True (stamp (pulse_batch (3 / 10))) 1 s1 = Inr s2
        \<and> is_locked s2)
   \<and> (\<exists>u'. sample_data True (stamp [1 / 20]) 2
              ((init_window (Some ADS7142))\<lparr>consecutive_cycles := 2, is_locked := True\<rparr>) = Inr u'
        \<and> consecutive_cycles u' = 0 \<and> \<not> is_locked u')"
proof -
  from pulse_batch_detected [of "3 / 10"] obtain r where
    r: "detect_cycle_in_batch (pulse_batch (3 / 10)) = Inr r" "detected r" by auto
  from noise_not_detected obtain q where
    q: "detect_cycle_in_batch [1 / 20] = Inr q" "\<not> detected q" by auto
  let ?s = "init_window (Some ADS7142)"
  let ?u = "?s\<lparr>consecutive_cycles := 2, is_locked := True\<rparr>"
  have h1: "adc ?s \<noteq> None \<and> consecutive_cycles ?s = 0 \<and> \<not> is_locked ?s
      \<and> detect_cycle_in_batch (map snd (stamp (pulse_batch (3 / 10)))) = Inr r \<and> detected r
      \<and> detect_cycle_in_batch (map snd (stamp (pulse_batch (3 / 10)))) = Inr r \<and> detected r"
    using r by (simp add: init_window_def)
  have h2: "adc ?u \<noteq> None \<and> detect_cycle_in_batch (map snd (stamp [1 / 20])) = Inr q
      \<and> \<not> detected q"
    using q by (simp add: init_window_def)
  from lock_after_two_detections [of ?s "stamp (pulse_batch (3 / 10))" r
      "stamp (pulse_batch (3 / 10))" r True 0 True 1 ?u "stamp [1 / 20]" q True 2] h1 h2
  show ?thesis by blast
qed


section \<open>When the gain controller runs\<close>

lemma process_cycle_call:
  assumes "cycle_triggers_gain c"
  shows "\<exists>mid. process_cycle spi_ok vb c u = auto_adjust_gain spi_ok mid 0 vb (1 / 10) 1
           \<and> adc mid = adc u
           \<and> continuous_sample_buffer mid = continuous_sample_buffer u"
proof -
  let ?s1 = "fold assign_pulse
               (enumerate 0 (zip (sorted_pulse_times c)
                  (zip (sorted_pulse_clusters c) (sorted_pulse_voltages c)))) u"
  let ?mid = "?s1\<lparr>wavelength_cycle_count := wavelength_cycle_count ?s1 + 1\<rparr>"
  from assms have "process_cycle spi_ok vb c u = auto_adjust_gain spi_ok ?mid 0 vb (1 / 10) 1"
    by (simp add: process_cycle_def cycle_triggers_gain_def Let_def)
  moreover have "adc ?mid = adc u" "continuous_sample_buffer ?mid = continuous_sample_buffer u"
    by (simp_all add: fold_assign_frame)
  ultimately show ?thesis by blast
qed

lemma single_cycle_sorted: "sort_by_quality [c] = [c]"
  by (simp add: sort_by_quality_def)

lemma pulse_batch_processed:
  "1 / 10 < v \<Longrightarrow> processed_cycles (pulse_batch v) = [pulse_cycle v]"
  by (simp add: processed_cycles_def pulse_valid_cycles single_cycle_sorted)

lemma pulse_cycle_triggers: "cycle_triggers_gain (pulse_cycle v) \<longleftrightarrow> \<bar>v\<bar> < 1 / 10"
  by (simp add: cycle_triggers_gain_def pulse_cycle_def)

lemma low_batch_steps_up:
  assumes "adc m = Some (ADS131M02 (2, 1))" and "vb \<noteq> []"
    and "list_ex (\<lambda>v. \<bar>v\<bar> < 1 / 10) vb" and "list_all (\<lambda>v. \<bar>v\<bar> \<le> 1) vb"
  shows "channel0_gain (auto_adjust_gain True m 0 vb (1 / 10) 1) = 4"
proof -
  from assms(4) have "\<not> list_ex (\<lambda>v. 1 < \<bar>v\<bar>) vb"
    by (auto simp: list_all_iff list_ex_iff)
  moreover note max_voltage_le [OF assms(2), of 1]
  ultimately show ?thesis
    using assms by (simp add: gain_defs)
qed

text \<open>
  Claim C7, as amended. For a batch without a detection, \<^verbatim>\<open>sample_data\<close> ends with one
  call of \<^verbatim>\<open>auto_adjust_gain\<close> on the batch's raw voltages, made on a state with the
  converter as before the batch. For a batch with a detection, the converter afterwards
  is the one obtained by one controller call, on the batch's raw voltages, for each of the
  first three cycles of the detection result that has six pulses and a pulse voltage
  below 0.1 V in absolute value; when none of them has one, the converter, and with it
  the gain, is as before and the continuous histories are the ones after the round-robin
  append. Processing one cycle is such a call when the cycle has a low pulse voltage, and
  leaves converter and continuous histories alone when it has none.
\<close>

theorem gain_controller_calls:
  "(adc s \<noteq> None \<and> detect_cycle_in_batch (map snd b) = Inr r \<and> \<not> detected r \<longrightarrow>
      (\<exists>mid. sample_data ok b t s = Inr (auto_adjust_gain ok mid 0 (map snd b) (1 / 10) 1)
         \<and> adc mid = adc s
         \<and> continuous_sample_buffer mid = continuous_sample_buffer (after_bookkeeping (map snd b) s)
         \<and> sample_buffer mid = sample_buffer s))
   \<and> (adc s \<noteq> None \<and> detect_cycle_in_batch (map snd b) = Inr r \<and> detected r
        \<and> all_valid_cycles r = Some cs \<longrightarrow>
      (\<exists>s'. sample_data ok b t s = Inr s'
         \<and> adc s' = gain_calls ok (map snd b) (take 3 cs) (adc s)
         \<and> ((\<forall>c\<in>set (take 3 cs). \<not> cycle_triggers_gain c) \<longrightarrow>
               adc s' = adc s
               \<and> continuous_sample_buffer s'
                   = continuous_sample_buffer (after_bookkeeping (map snd b) s))))
   \<and> (cycle_triggers_gain c \<longrightarrow>
        (\<exists>mid. process_cycle ok vb c u = auto_adjust_gain ok mid 0 vb (1 / 10) 1
           \<and> adc mid = adc u
           \<and> continuous_sample_buffer mid = continuous_sample_buffer u))
   \<and> (\<not> cycle_triggers_gain c \<longrightarrow>
        adc (process_cycle ok vb c u) = adc u
        \<and> continuous_sample_buffer (process_cycle ok vb c u) = continuous_sample_buffer u)
   \<and> adc (auto_adjust_gain ok u 0 vb (1 / 10) 1) = adjust_converter ok vb (adc u)"
proof (intro conjI impI)
  assume "adc s \<noteq> None \<and> detect_cycle_in_batch (map snd b) = Inr r \<and> \<not> detected r"
  then have "adc s \<noteq> None" "detect_cycle_in_batch (map snd b) = Inr r" "\<not> detected r"
    by simp_all
  then show "\<exists>mid. sample_data ok b t s = Inr (auto_adjust_gain ok mid 0 (map snd b) (1 / 10) 1)
         \<and> adc mid = adc s
         \<and> continuous_sample_buffer mid = continuous_sample_buffer (after_bookkeeping (map snd b) s)
         \<and> sample_buffer mid = sample_buffer s"
    by (rule sample_data_not_detected_gain)
next
  assume a: "adc s \<noteq> None \<and> detect_cycle_in_batch (map snd b) = Inr r \<and> detected r
        \<and> all_valid_cycles r = Some cs"
  then have h: "adc s \<noteq> None" "detect_cycle_in_batch (map snd b) = Inr r" "detected r"
    and cs: "all_valid_cycles r = Some cs"
    by simp_all
  from detect_detected [OF h(2,3)] cs
  have pc: "processed_cycles (map snd b) = take 3 cs"
    by (auto simp: processed_cycles_def)
  from sample_data_detected [OF h, of ok t] obtain s' where
    s': "sample_data ok b t s = Inr s'"
      "adc s' = gain_calls ok (map snd b) (take 3 cs) (adc s)"
    unfolding pc by blast
  have "adc s' = adc s
      \<and> continuous_sample_buffer s' = continuous_sample_buffer (after_bookkeeping (map snd b) s)"
    if idle: "\<forall>c\<in>set (take 3 cs). \<not> cycle_triggers_gain c"
  proof -
    from idle have "\<forall>c\<in>set (processed_cycles (map snd b)). \<not> cycle_triggers_gain c"
      unfolding pc .
    from sample_data_detected_continuous [OF h this, of ok t] s'(1) show ?thesis
      by auto
  qed
  with s' show "\<exists>s'. sample_data ok b t s = Inr s'
         \<and> adc s' = gain_calls ok (map snd b) (take 3 cs) (adc s)
         \<and> ((\<forall>c\<in>set (take 3 cs). \<not> cycle_triggers_gain c) \<longrightarrow>
               adc s' = adc s
               \<and> continuous_sample_buffer s'
                   = continuous_sample_buffer (after_bookkeeping (map snd b) s))"
    by blast
next
  assume "cycle_triggers_gain c"
  then show "\<exists>mid. process_cycle ok vb c u = auto_adjust_gain ok mid 0 vb (1 / 10) 1
           \<and> adc mid = adc u
           \<and> continuous_sample_buffer mid = continuous_sample_buffer u"
    by (rule process_cycle_call)
next
  assume "\<not> cycle_triggers_gain c"
  then show "adc (process_cycle ok vb c u) = adc u"
    by (simp add: process_cycle_adc)
next
  assume "\<not> cycle_triggers_gain c"
  then show "continuous_sample_buffer (process_cycle ok vb c u) = continuous_sample_buffer u"
    by (rule process_cycle_continuous)
next
  show "adc (auto_adjust_gain ok u 0 vb (1 / 10) 1) = adjust_converter ok vb (adc u)"
    by (rule adjust_converter_eq)
qed

theorem gain_controller_calls_witness:
  "gain_after (sample_data True (stamp [1 / 20]) 0 (init_window (Some (ADS131M02 (2, 1))))) = Some 4
   \<and> gain_after (sample_data True (stamp (pulse_batch (3 / 10))) 0
        (init_window (Some (ADS131M02 (2, 1))))) = Some 2
   \<and> channel0_gain (process_cycle True (pulse_batch (101 / 1000)) (pulse_cycle (99 / 1000))
        (init_window (Some (ADS131M02 (2, 1))))) = 4
   \<and> channel0_gain (process_cycle True (pulse_batch (3 / 10)) (pulse_cycle (3 / 10))
        (init_window (Some (ADS131M02 (2, 1))))) = 2"
proof -
  let ?s = "init_window (Some (ADS131M02 (2, 1)))"
  let ?lo = "pulse_cycle (99 / 1000)"
  let ?hi = "pulse_cycle (3 / 10)"
  have dev: "adc ?s = Some (ADS131M02 (2, 1))" by (simp add: init_window_def)
  from noise_not_detected obtain q where
    q: "detect_cycle_in_batch [1 / 20] = Inr q" "\<not> detected q" by auto
  have ne: "pulse_batch (3 / 10) \<noteq> []" by (simp add: pulse_batch_def)
  from detect_nonempty [OF ne] pulse_valid_cycles [of "3 / 10"] obtain r where
    r: "detect_cycle_in_batch (pulse_batch (3 / 10)) = Inr r" "detected r"
      "all_valid_cycles r = Some [?hi]"
    by (auto simp: single_cycle_sorted)
  have lo: "cycle_triggers_gain ?lo" and hi: "\<not> cycle_triggers_gain ?hi"
    by (simp_all add: pulse_cycle_triggers)
  note quiet = gain_controller_calls [of ?s "stamp [1 / 20]" q True 0 "[]" ?lo
      "pulse_batch (101 / 1000)" ?s]
  note found = gain_controller_calls [of ?s "stamp (pulse_batch (3 / 10))" r True 0 "[?hi]" ?hi
      "pulse_batch (3 / 10)" ?s]
  from quiet q dev obtain mid where
    mid: "sample_data True (stamp [1 / 20]) 0 ?s
            = Inr (auto_adjust_gain True mid 0 [1 / 20] (1 / 10) 1)"
      "adc mid = Some (ADS131M02 (2, 1))"
    by auto
  have "channel0_gain (auto_adjust_gain True mid 0 [1 / 20] (1 / 10) 1) = 4"
    using mid(2) by (simp add: gain_defs)
  with mid(1) have one: "gain_after (sample_data True (stamp [1 / 20]) 0 ?s) = Some 4"
    by (simp add: gain_after_def)
  from found r dev hi obtain s' where
    "sample_data True (stamp (pulse_batch (3 / 10))) 0 ?s = Inr s'"
    "adc s' = Some (ADS131M02 (2, 1))"
    by auto
  then have two: "gain_after (sample_data True (stamp (pulse_batch (3 / 10))) 0 ?s) = Some 2"
    by (simp add: gain_after_def channel0_gain_def)
  from quiet lo dev obtain m where
    m: "process_cycle True (pulse_batch (101 / 1000)) ?lo ?s
          = auto_adjust_gain True m 0 (pulse_batch (101 / 1000)) (1 / 10) 1"
      "adc m = Some (ADS131M02 (2, 1))"
    by auto
  have "channel0_gain (auto_adjust_gain True m 0 (pulse_batch (101 / 1000)) (1 / 10) 1) = 4"
    by (rule low_batch_steps_up [OF m(2)]) (simp_all add: pulse_batch_def list_all_iff)
  with m(1) have three:
    "channel0_gain (process_cycle True (pulse_batch (101 / 1000)) ?lo ?s) = 4"
    by simp
  from found hi dev have "adc (process_cycle True (pulse_batch (3 / 10)) ?hi ?s)
      = Some (ADS131M02 (2, 1))"
    by simp
  then have four: "channel0_gain (process_cycle True (pulse_batch (3 / 10)) ?hi ?s) = 2"
    by (simp add: channel0_gain_def)
  from one two three four show ?thesis by simp
qed

text \<open>
  Claim C7 as stated fails on a detected batch whose pulses reach 1.5 V at gain 4: the
  policy steps the gain down to 2 on these voltages, \<^verbatim>\<open>sample_data\<close> leaves it at 4.
\<close>

theorem detected_batch_skips_gain_policy:
  "detection_flag (pulse_batch (3 / 2)) = Some True
   \<and> gain_after (sample_data True (stamp (pulse_batch (3 / 2))) 0
        (init_window (Some (ADS131M02 (4, 1))))) = Some 4
   \<and> channel0_gain (auto_adjust_gain True (init_window (Some (ADS131M02 (4, 1)))) 0
        (pulse_batch (3 / 2)) (1 / 10) 1) = 2"
proof -
  let ?s = "init_window (Some (ADS131M02 (4, 1)))"
  have dev: "adc ?s \<noteq> None" "adc ?s = Some (ADS131M02 (4, 1))" by (simp_all add: init_window_def)
  from pulse_batch_detected [of "3 / 2"] obtain r where
    r: "detect_cycle_in_batch (pulse_batch (3 / 2)) = Inr r" "detected r" by auto
  then have flag: "detection_flag (pulse_batch (3 / 2)) = Some True"
    by (simp add: detection_flag_def)
  from r have r': "detect_cycle_in_batch (map snd (stamp (pulse_batch (3 / 2)))) = Inr r"
    by simp
  have idle: "\<forall>c\<in>set (processed_cycles (map snd (stamp (pulse_batch (3 / 2))))).
      \<not> cycle_triggers_gain c"
    by (simp add: pulse_batch_processed pulse_cycle_triggers)
  from sample_data_detected_continuous [OF dev(1) r' r(2) idle, of True 0] dev(2)
  obtain s' where "sample_data True (stamp (pulse_batch (3 / 2))) 0 ?s = Inr s'"
    "adc s' = Some (ADS131M02 (4, 1))"
    by auto
  then have kept: "gain_after (sample_data True (stamp (pulse_batch (3 / 2))) 0 ?s) = Some 4"
    by (simp add: gain_after_def channel0_gain_def)
  have "channel0_gain (auto_adjust_gain True ?s 0 (pulse_batch (3 / 2)) (1 / 10) 1) = 2"
    by (simp add: gain_defs init_window_def pulse_batch_def)
  with flag kept show ?thesis by simp
qed


section \<open>Length of the pattern-based history\<close>

lemma empty_batch_no_cycles: "find_valid_cycles [] = []"
proof -
  have "find_pulse_clusters [] = []"
    by (simp add: find_pulse_clusters_def cluster_loop_def)
  then show ?thesis by (simp add: short_batch_no_cycles)
qed

lemma sample_data_history:
  "\<exists>s' new. sample_data ok b t s = Inr s'
     \<and> sample_buffer s' w = sample_buffer s w @ new
     \<and> length new = (if adc s = None then 0 else min 3 (length (valid_windows (map snd b))))"
proof (cases "adc s = None \<or> map snd b = []")
  case True
  then have "sample_data ok b t s = Inr s"
    by (auto simp: sample_data_def)
  moreover from True have "adc s \<noteq> None \<Longrightarrow> valid_windows (map snd b) = []"
    by (auto simp: valid_windows_empty empty_batch_no_cycles)
  ultimately show ?thesis
    by (intro exI [of _ s] exI [of _ "[]"]) auto
next
  case False
  then have dev: "adc s \<noteq> None" and ne: "map snd b \<noteq> []" by simp_all
  from detect_nonempty [OF ne] obtain r where
    r: "detect_cycle_in_batch (map snd b) = Inr r"
      "detected r \<longleftrightarrow> find_valid_cycles (map snd b) \<noteq> []"
    by blast
  show ?thesis
  proof (cases "detected r")
    case True
    from sample_data_detected_history [OF dev r(1) True, of ok t w] dev show ?thesis
      by auto
  next
    case False
    with r(2) have "valid_windows (map snd b) = []"
      by (simp add: valid_windows_empty)
    with sample_data_not_detected [OF dev r(1) False, of ok t] dev show ?thesis
      by auto
  qed
qed

lemma keep_last_50_patterns: "sample_buffer (keep_last_50 param s) = sample_buffer s"
  by (simp add: keep_last_50_def)

lemma graph_param_patterns: "sample_buffer (graph_param recent param s) = sample_buffer s"
  by (simp add: graph_param_def keep_last_50_patterns)

lemma fold_graph_param_patterns:
  "sample_buffer (fold (graph_param recent) ps s) = sample_buffer s"
  by (induction ps arbitrary: s) (simp_all add: graph_param_patterns)

lemma clear_param_patterns:
  "sample_buffer (clear_param param s) = (sample_buffer s)(param := [])"
  by (auto simp: clear_param_def)

lemma clear_all_patterns: "sample_buffer (fold clear_param PARAMETERS s) w = []"
  by (cases w) (simp_all add: PARAMETERS_def clear_param_patterns)

lemma update_graph_patterns:
  "sample_buffer (update_graph_from_buffer now s) w =
     (if cycle_timestamps s \<noteq> [] \<and> 5 < now - last (cycle_timestamps s)
      then [] else sample_buffer s w)"
  by (simp add: update_graph_from_buffer_def Let_def fold_graph_param_patterns clear_all_patterns)

lemma run_pulse_batches:
  assumes "1 / 10 < v"
  shows "adc s \<noteq> None \<Longrightarrow>
         \<exists>s'. run ok (replicate n (Batch (stamp (pulse_batch v)) t)) s = Inr s'
            \<and> length (sample_buffer s' w) = length (sample_buffer s w) + n"
proof (induction n arbitrary: s)
  case 0
  show ?case by simp
next
  case (Suc n)
  from pulse_batch_detected [OF assms] obtain r where
    r: "detect_cycle_in_batch (map snd (stamp (pulse_batch v))) = Inr r" "detected r"
    by auto
  from sample_data_detected [OF Suc.prems r, of ok t] obtain s1 where
    s1: "sample_data ok (stamp (pulse_batch v)) t s = Inr s1" "adc s1 \<noteq> None"
    by blast
  from sample_data_history [of ok "stamp (pulse_batch v)" t s w] s1(1) Suc.prems
  have len: "length (sample_buffer s1 w) = length (sample_buffer s w) + 1"
    by (auto simp: pulse_batch_windows [OF assms])
  from Suc.IH [OF s1(2)] obtain s' where
    "run ok (replicate n (Batch (stamp (pulse_batch v)) t)) s1 = Inr s'"
    "length (sample_buffer s' w) = length (sample_buffer s1 w) + n"
    by blast
  with s1(1) len show ?case by simp
qed

text \<open>
  Claim C1, as amended. The pattern-based history of a wavelength has no cap. A call of
  \<^verbatim>\<open>sample_data\<close> appends to it, at the end, one entry for each cycle it processes:
  none without a converter, and otherwise as many as there are windows of six clusters
  passing the checks, three at most; it drops nothing. The reporting tick
  \<^verbatim>\<open>update_graph_from_buffer\<close> leaves the history as it is unless the last detection is
  more than 5 s old, and then empties it.
\<close>

theorem pattern_history_only_grows:
  "(\<exists>s' new. sample_data ok b t s = Inr s'
      \<and> sample_buffer s' w = sample_buffer s w @ new
      \<and> length new = (if adc s = None then 0 else min 3 (length (valid_windows (map snd b)))))
   \<and> sample_buffer (update_graph_from_buffer now u) w =
        (if cycle_timestamps u \<noteq> [] \<and> 5 < now - last (cycle_timestamps u)
         then [] else sample_buffer u w)"
  using sample_data_history [of ok b t s w] update_graph_patterns [of now u w]
  by simp

theorem pattern_history_only_grows_witness:
  "history_length nm700
     (sample_data True (stamp (three_window_batch (3 / 10))) 0
        (init_window (Some (ADS131M02 (1, 1))))) = Some 3
   \<and> history_length nm700
     (sample_data True (stamp [1 / 20]) 0 (init_window (Some (ADS131M02 (1, 1))))) = Some 0
   \<and> sample_buffer (update_graph_from_buffer 6
        ((init_window None)\<lparr>sample_buffer := (\<lambda>w. [1]), cycle_timestamps := [0]\<rparr>)) nm700 = []
   \<and> sample_buffer (update_graph_from_buffer 3
        ((init_window None)\<lparr>sample_buffer := (\<lambda>w. [1]), cycle_timestamps := [0]\<rparr>)) nm700 = [1]"
proof -
  let ?s = "init_window (Some (ADS131M02 (1, 1)))"
  let ?u = "(init_window None)\<lparr>sample_buffer := (\<lambda>w. [1]), cycle_timestamps := [0]\<rparr>"
  have dev: "adc ?s \<noteq> None" and empty: "sample_buffer ?s nm700 = []"
    by (simp_all add: init_window_def)
  have none: "valid_windows [1 / 20] = []"
    unfolding valid_windows_empty
    by (simp add: short_batch_no_cycles noise_no_clusters)
  from pattern_history_only_grows [of True "stamp (three_window_batch (3 / 10))" 0 ?s nm700 6 ?u]
    dev empty
  have one: "history_length nm700
      (sample_data True (stamp (three_window_batch (3 / 10))) 0 ?s) = Some 3"
    and tick: "sample_buffer (update_graph_from_buffer 6 ?u) nm700 = []"
    by (auto simp: history_length_def three_window_windows)
  from pattern_history_only_grows [of True "stamp [1 / 20]" 0 ?s nm700 3 ?u] dev empty
  have two: "history_length nm700 (sample_data True (stamp [1 / 20]) 0 ?s) = Some 0"
    and kept: "sample_buffer (update_graph_from_buffer 3 ?u) nm700 = [1]"
    by (auto simp: history_length_def none)
  from one two tick kept show ?thesis by simp
qed

text \<open>
  Claim C1 as stated fails: after 101 batches with one detected cycle each, the
  history of 700 nm holds 101 entries.
\<close>

theorem pattern_history_exceeds_cap:
  "history_length nm700
     (run True (replicate 101 (Batch (stamp (pulse_batch (3 / 10))) 0))
        (init_window (Some (ADS131M02 (1, 1))))) = Some 101"
proof -
  have "(1::real) / 10 < 3 / 10" by simp
  moreover have "adc (init_window (Some (ADS131M02 (1, 1)))) \<noteq> None"
    by (simp add: init_window_def)
  ultimately obtain s' where
    "run True (replicate 101 (Batch (stamp (pulse_batch (3 / 10))) 0))
       (init_window (Some (ADS131M02 (1, 1)))) = Inr s'"
    "length (sample_buffer s' nm700)
       = length (sample_buffer (init_window (Some (ADS131M02 (1, 1)))) nm700) + 101"
    using run_pulse_batches [of "3 / 10" "init_window (Some (ADS131M02 (1, 1)))" True 101 0 nm700]
    by blast
  then show ?thesis
    by (simp add: history_length_def init_window_def)
qed


section \<open>The silence timer\<close>

lemma elapse_running:
  assumes "no_pattern_timer u = Some left"
  shows "no_pattern_timer (elapse ms u) = (if ms < left then Some (left - ms) else None)"
    and "status_label_shown (elapse ms u) \<longleftrightarrow> status_label_shown u \<or> left \<le> ms"
    and "pattern_detection_active (elapse ms u) \<longleftrightarrow> pattern_detection_active u \<and> ms < left"
    and "adc (elapse ms u) = adc u"
  using assms by (auto simp: elapse_def show_no_pattern_detected_def)

lemma elapse_idle: "no_pattern_timer u = None \<Longrightarrow> elapse ms u = u"
  by (simp add: elapse_def)

lemma elapse_consistent: "timer_consistent u \<Longrightarrow> timer_consistent (elapse ms u)"
  by (cases "no_pattern_timer u")
     (auto simp: timer_consistent_def elapse_idle elapse_running)

lemma elapse_shown: "status_label_shown u \<Longrightarrow> status_label_shown (elapse ms u)"
  by (cases "no_pattern_timer u") (simp_all add: elapse_idle elapse_running)

lemma quiet_batch:
  assumes "quiet (Batch b t)"
  shows "\<exists>s'. sample_data ok b t s = Inr s'
           \<and> (status_label_shown s' \<longleftrightarrow> status_label_shown s)
           \<and> (pattern_detection_active s \<longrightarrow>
                no_pattern_timer s' = no_pattern_timer s \<and> pattern_detection_active s')"
proof (cases "adc s = None \<or> map snd b = []")
  case True
  then have "sample_data ok b t s = Inr s"
    by (auto simp: sample_data_def)
  then show ?thesis by simp
next
  case False
  then have dev: "adc s \<noteq> None" and ne: "map snd b \<noteq> []" by simp_all
  from detect_nonempty [OF ne] obtain r where r: "detect_cycle_in_batch (map snd b) = Inr r"
    by blast
  with assms have "\<not> detected r" by simp
  from sample_data_not_detected [OF dev r this, of ok t] show ?thesis
    by auto
qed

lemma shown_stays:
  "list_all quiet evs \<Longrightarrow> status_label_shown s \<Longrightarrow>
   \<exists>s'. run ok evs s = Inr s' \<and> status_label_shown s'"
proof (induction evs arbitrary: s)
  case Nil
  then show ?case by simp
next
  case (Cons ev evs)
  then have rest: "list_all quiet evs" and this_one: "quiet ev" by simp_all
  show ?case
  proof (cases ev)
    case (Batch b t)
    with this_one quiet_batch [of b t ok s] Cons.prems(2) obtain s1 where
      "sample_data ok b t s = Inr s1" "status_label_shown s1"
      by auto
    with Cons.IH [OF rest, of s1] Batch show ?thesis by simp
  next
    case (Elapse ms)
    with Cons.IH [OF rest elapse_shown [OF Cons.prems(2), of ms]] show ?thesis by simp
  qed
qed

lemma quiet_run:
  "list_all quiet evs \<Longrightarrow> no_pattern_timer s = Some left \<Longrightarrow> 0 < left \<Longrightarrow>
   pattern_detection_active s \<Longrightarrow> \<not> status_label_shown s \<Longrightarrow>
   \<exists>s'. run ok evs s = Inr s' \<and> (status_label_shown s' \<longleftrightarrow> left \<le> elapsed evs)"
proof (induction evs arbitrary: s left)
  case Nil
  then show ?case by simp
next
  case (Cons ev evs)
  then have rest: "list_all quiet evs" and this_one: "quiet ev" by simp_all
  show ?case
  proof (cases ev)
    case (Batch b t)
    with this_one quiet_batch [of b t ok s] Cons.prems obtain s1 where
      s1: "sample_data ok b t s = Inr s1" "\<not> status_label_shown s1"
        "no_pattern_timer s1 = Some left" "pattern_detection_active s1"
      by auto
    from Cons.IH [OF rest s1(3) Cons.prems(3) s1(4) s1(2)] s1(1) Batch show ?thesis
      by simp
  next
    case (Elapse ms)
    note e = elapse_running [OF Cons.prems(2), of ms]
    show ?thesis
    proof (cases "ms < left")
      case True
      with e Cons.prems have "no_pattern_timer (elapse ms s) = Some (left - ms)"
        "0 < left - ms" "pattern_detection_active (elapse ms s)"
        "\<not> status_label_shown (elapse ms s)"
        by simp_all
      from Cons.IH [OF rest this] obtain s' where
        "run ok evs (elapse ms s) = Inr s'"
        "status_label_shown s' \<longleftrightarrow> left - ms \<le> elapsed evs"
        by blast
      with True Elapse show ?thesis
        by (auto simp: le_diff_conv)
    next
      case False
      with e have "status_label_shown (elapse ms s)" by simp
      from shown_stays [OF rest this, of ok] False Elapse show ?thesis
        by auto
    qed
  qed
qed

text \<open>
  Claim C6. The single-shot timer is read as an exact countdown: \<open>elapse\<close> lets the
  given number of milliseconds pass and calls the connected slot when the interval has
  run out. Throughout a scan the flag \<^verbatim>\<open>pattern_detection_active\<close> tells whether the
  timer runs (\<open>timer_consistent\<close>, kept by every step). A batch without a detection
  starts the timer at 3000 ms when it is not running and leaves a running timer alone;
  a batch with a detection stops it and hides the label. A running timer with \<open>left\<close>
  ms to go shows the label exactly when at least \<open>left\<close> ms pass, and is not running
  afterwards, so that the next batch without a detection starts it again. Hence, from a
  state with the timer off and the label hidden, after a batch without a detection and
  any further events without a detection, the label is shown exactly when 3000 ms or
  more have passed since that batch.
\<close>

theorem silence_timer:
  "(adc s \<noteq> None \<and> timer_consistent s
      \<and> detect_cycle_in_batch (map snd b) = Inr r \<and> \<not> detected r \<longrightarrow>
      (\<exists>s'. sample_data ok b t s = Inr s'
         \<and> no_pattern_timer s'
             = (case no_pattern_timer s of None \<Rightarrow> Some 3000 | Some left \<Rightarrow> Some left)
         \<and> timer_consistent s'
         \<and> (status_label_shown s' \<longleftrightarrow> status_label_shown s)))
   \<and> (adc s \<noteq> None \<and> detect_cycle_in_batch (map snd b) = Inr r \<and> detected r \<longrightarrow>
      (\<exists>s'. sample_data ok b t s = Inr s'
         \<and> no_pattern_timer s' = None \<and> timer_consistent s' \<and> \<not> status_label_shown s'))
   \<and> (no_pattern_timer u = Some left \<longrightarrow>
        no_pattern_timer (elapse ms u) = (if ms < left then Some (left - ms) else None)
        \<and> (status_label_shown (elapse ms u) \<longleftrightarrow> status_label_shown u \<or> left \<le> ms)
        \<and> (timer_consistent u \<longrightarrow> timer_consistent (elapse ms u)))
   \<and> (no_pattern_timer u = None \<longrightarrow> elapse ms u = u)
   \<and> (adc s \<noteq> None \<and> no_pattern_timer s = None \<and> timer_consistent s
        \<and> \<not> status_label_shown s
        \<and> detect_cycle_in_batch (map snd b) = Inr r \<and> \<not> detected r
        \<and> list_all quiet evs \<longrightarrow>
      (\<exists>s'. run ok (Batch b t # evs) s = Inr s'
         \<and> (status_label_shown s' \<longleftrightarrow> 3000 \<le> elapsed evs)))"
proof (intro conjI impI)
  assume "adc s \<noteq> None \<and> timer_consistent s
      \<and> detect_cycle_in_batch (map snd b) = Inr r \<and> \<not> detected r"
  then have h: "adc s \<noteq> None" "detect_cycle_in_batch (map snd b) = Inr r" "\<not> detected r"
    and c: "timer_consistent s"
    by simp_all
  from sample_data_not_detected [OF h, of ok t] c
  show "\<exists>s'. sample_data ok b t s = Inr s'
         \<and> no_pattern_timer s'
             = (case no_pattern_timer s of None \<Rightarrow> Some 3000 | Some left \<Rightarrow> Some left)
         \<and> timer_consistent s'
         \<and> (status_label_shown s' \<longleftrightarrow> status_label_shown s)"
    by (cases "no_pattern_timer s") (auto simp: timer_consistent_def)
next
  assume "adc s \<noteq> None \<and> detect_cycle_in_batch (map snd b) = Inr r \<and> detected r"
  then have "adc s \<noteq> None" "detect_cycle_in_batch (map snd b) = Inr r" "detected r"
    by simp_all
  from sample_data_detected [OF this, of ok t]
  show "\<exists>s'. sample_data ok b t s = Inr s'
         \<and> no_pattern_timer s' = None \<and> timer_consistent s' \<and> \<not> status_label_shown s'"
    by (auto simp: timer_consistent_def)
next
  assume "no_pattern_timer u = Some left"
  then show "no_pattern_timer (elapse ms u) = (if ms < left then Some (left - ms) else None)"
    by (rule elapse_running)
next
  assume "no_pattern_timer u = Some left"
  then show "status_label_shown (elapse ms u) \<longleftrightarrow> status_label_shown u \<or> left \<le> ms"
    by (rule elapse_running)
next
  assume "timer_consistent u"
  then show "timer_consistent (elapse ms u)"
    by (rule elapse_consistent)
next
  assume "no_pattern_timer u = None"
  then show "elapse ms u = u"
    by (rule elapse_idle)
next
  assume a: "adc s \<noteq> None \<and> no_pattern_timer s = None \<and> timer_consistent s
        \<and> \<not> status_label_shown s
        \<and> detect_cycle_in_batch (map snd b) = Inr r \<and> \<not> detected r
        \<and> list_all quiet evs"
  then have h: "adc s \<noteq> None" "detect_cycle_in_batch (map snd b) = Inr r" "\<not> detected r"
    and off: "no_pattern_timer s = None" "\<not> pattern_detection_active s"
      "\<not> status_label_shown s"
    and evs: "list_all quiet evs"
    by (simp_all add: timer_consistent_def)
  from sample_data_not_detected [OF h, of ok t] off obtain s1 where
    s1: "sample_data ok b t s = Inr s1" "no_pattern_timer s1 = Some 3000"
      "pattern_detection_active s1" "\<not> status_label_shown s1"
    by auto
  from quiet_run [OF evs s1(2) _ s1(3,4), of ok] s1(1)
  show "\<exists>s'. run ok (Batch b t # evs) s = Inr s'
         \<and> (status_label_shown s' \<longleftrightarrow> 3000 \<le> elapsed evs)"
    by simp
qed

theorem silence_timer_witness:
  "(\<exists>s'. run True [Batch (stamp [1 / 20]) 0, Elapse 2999]
            (init_window (Some (ADS131M02 (1, 1)))) = Inr s'
       \<and> \<not> status_label_shown s')
   \<and> (\<exists>s'. run True [Batch (stamp [1 / 20]) 0, Elapse 1000, Batch (stamp [1 / 20]) 1, Elapse 2000]
            (init_window (Some (ADS131M02 (1, 1)))) = Inr s'
       \<and> status_label_shown s')
   \<and> (\<exists>s'. sample_data True (stamp (pulse_batch (3 / 10))) 2
            ((init_window (Some (ADS131M02 (1, 1))))
               \<lparr>no_pattern_timer := Some 3000, pattern_detection_active := True,
                status_label_shown := True\<rparr>) = Inr s'
       \<and> no_pattern_timer s' = None \<and> \<not> status_label_shown s')
   \<and> no_pattern_timer (elapse 2999 ((init_window (Some (ADS131M02 (1, 1))))
        \<lparr>no_pattern_timer := Some 3000, pattern_detection_active := True\<rparr>)) = Some 1
   \<and> \<not> status_label_shown (elapse 2999 ((init_window (Some (ADS131M02 (1, 1))))
        \<lparr>no_pattern_timer := Some 3000, pattern_detection_active := True\<rparr>))
   \<and> no_pattern_timer (elapse 3000 ((init_window (Some (ADS131M02 (1, 1))))
        \<lparr>no_pattern_timer := Some 3000, pattern_detection_active := True\<rparr>)) = None
   \<and> status_label_shown (elapse 3000 ((init_window (Some (ADS131M02 (1, 1))))
        \<lparr>no_pattern_timer := Some 3000, pattern_detection_active := True\<rparr>))"
proof -
  let ?s = "init_window (Some (ADS131M02 (1, 1)))"
  let ?armed = "?s\<lparr>no_pattern_timer := Some 3000, pattern_detection_active := True\<rparr>"
  let ?late = "?s\<lparr>no_pattern_timer := Some 3000, pattern_detection_active := True,
                 status_label_shown := True\<rparr>"
  from noise_not_detected obtain q where
    q: "detect_cycle_in_batch [1 / 20] = Inr q" "\<not> detected q" by auto
  from pulse_batch_detected [of "3 / 10"] obtain r where
    r: "detect_cycle_in_batch (pulse_batch (3 / 10)) = Inr r" "detected r" by auto
  have start: "adc ?s \<noteq> None" "no_pattern_timer ?s = None" "timer_consistent ?s"
    "\<not> status_label_shown ?s"
    by (simp_all add: init_window_def timer_consistent_def)
  have armed: "no_pattern_timer ?armed = Some 3000" "\<not> status_label_shown ?armed"
    by (simp_all add: init_window_def)
  have late: "adc ?late \<noteq> None"
    by (simp add: init_window_def)
  from silence_timer [where s = ?s and b = "stamp [1 / 20]" and r = q and ok = True and t = 0
      and u = ?armed and left = 3000 and ms = 2999 and evs = "[Elapse 2999]"] q start armed
  have one: "\<exists>s'. run True [Batch (stamp [1 / 20]) 0, Elapse 2999] ?s = Inr s'
      \<and> \<not> status_label_shown s'"
    and early: "no_pattern_timer (elapse 2999 ?armed) = Some 1"
      "\<not> status_label_shown (elapse 2999 ?armed)"
    by simp_all
  from silence_timer [where s = ?s and b = "stamp [1 / 20]" and r = q and ok = True and t = 0
      and u = ?armed and left = 3000 and ms = 3000
      and evs = "[Elapse 1000, Batch (stamp [1 / 20]) 1, Elapse 2000]"] q start armed
  have two: "\<exists>s'. run True [Batch (stamp [1 / 20]) 0, Elapse 1000, Batch (stamp [1 / 20]) 1,
      Elapse 2000] ?s = Inr s' \<and> status_label_shown s'"
    and due: "no_pattern_timer (elapse 3000 ?armed) = None"
      "status_label_shown (elapse 3000 ?armed)"
    by simp_all
  from silence_timer [where s = ?late and b = "stamp (pulse_batch (3 / 10))" and r = r
      and ok = True and t = 2 and u = ?armed and left = 3000 and ms = 3000 and evs = "[]"] r late
  have three: "\<exists>s'. sample_data True (stamp (pulse_batch (3 / 10))) 2 ?late = Inr s'
      \<and> no_pattern_timer s' = None \<and> \<not> status_label_shown s'"
    by auto
  from one two three early due show ?thesis
    by blast
qed


end
